theory Spec2Isabelle
  imports Main "HOL-Library.Multiset" "HOL-Library.Char_ord" "HOL-Library.List_Lexorder"
begin

section \<open>The note collection state engine of geeks-diary\<close>

text \<open>
  A shallow embedding of \<^verbatim>\<open>src/browser/note/note-collection/note-collection.reducer.ts\<close>.
  Every function of that file is one definition below, under its own name. A JavaScript
  exception (reading a property of \<^verbatim>\<open>null\<close>) is the value \<open>Inl TypeError\<close>; a returned
  state is \<open>Inr\<close> of it. The reducer is modelled on a state that is passed to it; its
  default argument, the initial state, is where the reachable states start.
\<close>

subsection \<open>Data model\<close>

text \<open>
  Modelled from the spec: the interface \<^verbatim>\<open>NoteItem\<close> of \<^verbatim>\<open>note-item.model.ts\<close>, which is
  not among the sources. Its fields are those of section 3; the reducer reads \<^verbatim>\<open>id\<close>,
  \<^verbatim>\<open>title\<close> and \<^verbatim>\<open>createdDatetime\<close> and writes \<^verbatim>\<open>title\<close>, \<^verbatim>\<open>contentFilePath\<close>,
  \<^verbatim>\<open>contentFileName\<close> and \<^verbatim>\<open>stackIds\<close>. The field \<^verbatim>\<open>id\<close> is \<open>id'\<close> here, \<open>id\<close> being
  the identity function of HOL. \<^verbatim>\<open>createdDatetime\<close> is a number of milliseconds since the
  epoch.
\<close>

record NoteItem =
  id' :: string
  title :: string
  createdDatetime :: int
  contentFilePath :: string
  contentFileName :: string
  stackIds :: "string list"
  label :: "string option"

text \<open>
  \<^verbatim>\<open>Partial<NoteItem>\<close>: the own properties of the patch object, in the order in which
  the object literal lists them. The spread \<^verbatim>\<open>{ ...note, ...patch }\<close> assigns them one
  after the other.
\<close>

datatype NoteItemProp =
    PropId string
  | PropTitle string
  | PropCreatedDatetime int
  | PropContentFilePath string
  | PropContentFileName string
  | PropStackIds "string list"
  | PropLabel "string option"

fun assignProp :: "NoteItem \<Rightarrow> NoteItemProp \<Rightarrow> NoteItem" where
  "assignProp n (PropId v) = n\<lparr>id' := v\<rparr>"
| "assignProp n (PropTitle v) = n\<lparr>title := v\<rparr>"
| "assignProp n (PropCreatedDatetime v) = n\<lparr>createdDatetime := v\<rparr>"
| "assignProp n (PropContentFilePath v) = n\<lparr>contentFilePath := v\<rparr>"
| "assignProp n (PropContentFileName v) = n\<lparr>contentFileName := v\<rparr>"
| "assignProp n (PropStackIds v) = n\<lparr>stackIds := v\<rparr>"
| "assignProp n (PropLabel v) = n\<lparr>label := v\<rparr>"

definition spread :: "NoteItem \<Rightarrow> NoteItemProp list \<Rightarrow> NoteItem" where
  "spread n patch = foldl assignProp n patch"

text \<open>
  Modelled from the spec: the enumerations and the interface \<^verbatim>\<open>NoteCollectionState\<close> of
  \<^verbatim>\<open>note-collection.state.ts\<close>, which is not among the sources. The fields of the state
  are those that the reducer reads and writes, with the types of section 3; \<open>NONE\<close> is the
  filter mode that takes the \<^verbatim>\<open>default\<close> branch of the filter switch. A selector that is
  \<^verbatim>\<open>null\<close> is \<open>None\<close>. The contribution table is opaque to the reducer, which only stores
  it.
\<close>

datatype NoteCollectionFilterBy = BY_MONTH | BY_DATE | NONE

datatype NoteCollectionSortBy = CREATED | TITLE

datatype SortDirection = DESC | ASC

datatype NoteCollectionViewModes = VIEW_DETAIL | VIEW_SIMPLE

record MonthSelection =
  year :: int
  month :: int

record DateSelection = MonthSelection +
  date :: int

type_synonym NoteContributionTable = "(string \<times> nat) list"

record NoteCollectionState =
  loading :: bool
  loaded :: bool
  "notes" :: "NoteItem list"
  filteredAndSortedNotes :: "NoteItem list"
  filterBy :: NoteCollectionFilterBy
  selectedMonth :: "MonthSelection option"
  selectedDate :: "DateSelection option"
  sortBy :: NoteCollectionSortBy
  sortDirection :: SortDirection
  viewMode :: NoteCollectionViewModes
  selectedNote :: "NoteItem option"
  contribution :: NoteContributionTable

datatype error = TypeError

subsection \<open>Dates\<close>

text \<open>
  A JavaScript \<^verbatim>\<open>Date\<close> is a number of milliseconds since the epoch; its getters read it
  in the local time zone of the machine. The reducer and \<^verbatim>\<open>libs/datetime\<close> only read the
  local calendar date of a \<^verbatim>\<open>Date\<close> (\<^verbatim>\<open>getFullYear()\<close>, \<^verbatim>\<open>getMonth()\<close> counted from 0,
  \<^verbatim>\<open>getDate()\<close>), so a \<^verbatim>\<open>Date\<close> object is modelled by that reading. The time zone is a
  parameter of the model: the function from a number of milliseconds to the local calendar
  date, which is \<^verbatim>\<open>new Date(milliseconds)\<close>. Time values are integers without a bound.
\<close>

record CalendarDate =
  fullYear :: int
  monthIndex :: int
  dayOfMonth :: int

type_synonym TimeZone = "int \<Rightarrow> CalendarDate"

definition getFullYear :: "TimeZone \<Rightarrow> int \<Rightarrow> int" where
  "getFullYear zone d = fullYear (zone d)"

definition getMonth :: "TimeZone \<Rightarrow> int \<Rightarrow> int" where
  "getMonth zone d = monthIndex (zone d)"

definition getDate :: "TimeZone \<Rightarrow> int \<Rightarrow> int" where
  "getDate zone d = dayOfMonth (zone d)"

text \<open>
  The proleptic Gregorian calendar: the date of a day number (days since 1 January 1970),
  the day number of the first day of a month, and the length of a month.
\<close>

definition dateOfDayOfYear :: "int \<Rightarrow> int \<Rightarrow> int \<Rightarrow> CalendarDate" where
  "dateOfDayOfYear y doy mp =
     \<lparr>fullYear = (if mp < 10 then y else y + 1),
      monthIndex = (if mp < 10 then mp + 2 else mp - 10),
      dayOfMonth = doy - (153 * mp + 2) div 5 + 1\<rparr>"

definition dateOfYearOfEra :: "int \<Rightarrow> int \<Rightarrow> int \<Rightarrow> CalendarDate" where
  "dateOfYearOfEra era doe yoe =
     dateOfDayOfYear (yoe + era * 400) (doe - (365 * yoe + yoe div 4 - yoe div 100))
       ((5 * (doe - (365 * yoe + yoe div 4 - yoe div 100)) + 2) div 153)"

definition dateOfDayOfEra :: "int \<Rightarrow> int \<Rightarrow> CalendarDate" where
  "dateOfDayOfEra era doe =
     dateOfYearOfEra era doe ((doe - doe div 1460 + doe div 36524 - doe div 146096) div 365)"

definition dateOfDay :: "int \<Rightarrow> CalendarDate" where
  "dateOfDay n = dateOfDayOfEra ((n + 719468) div 146097) ((n + 719468) mod 146097)"

definition daysBeforeYear :: "int \<Rightarrow> int" where
  "daysBeforeYear y = (y div 400) * 146097 + (y mod 400) * 365 + (y mod 400) div 4 - (y mod 400) div 100"

definition dayOfMonthStart :: "int \<Rightarrow> int \<Rightarrow> int" where
  "dayOfMonthStart y m =
     daysBeforeYear (if m < 2 then y - 1 else y) + (153 * ((m + 10) mod 12) + 2) div 5 - 719468"

definition isLeapYear :: "int \<Rightarrow> bool" where
  "isLeapYear y \<longleftrightarrow> y mod 4 = 0 \<and> (y mod 100 \<noteq> 0 \<or> y mod 400 = 0)"

definition daysInMonth :: "int \<Rightarrow> int \<Rightarrow> int" where
  "daysInMonth y m =
     (if m = 1 then (if isLeapYear y then 29 else 28)
      else if m = 3 \<or> m = 5 \<or> m = 8 \<or> m = 10 then 30
      else 31)"

text \<open>
  \<^verbatim>\<open>new Date(year, month, date)\<close>, read in local time. A year from 0 to 99 stands for
  1900 + year (\<open>makeFullYear\<close>). A month from 0 to 11 with a date of that month gives the
  date as it is written; any other month or date rolls over into the neighbouring months
  and years, by the day number of the first day of the month
  (\<^verbatim>\<open>MakeDay\<close> of ECMAScript). A local midnight that a change of the clock skips is read an
  hour later, on the same date.
\<close>

definition makeFullYear :: "int \<Rightarrow> int" where
  "makeFullYear y = (if 0 \<le> y \<and> y \<le> 99 then 1900 + y else y)"

definition newDate :: "int \<Rightarrow> int \<Rightarrow> int \<Rightarrow> CalendarDate" where
  "newDate y m d =
     (if 0 \<le> m \<and> m \<le> 11 \<and> 1 \<le> d \<and> d \<le> daysInMonth (makeFullYear y) m
      then \<lparr>fullYear = makeFullYear y, monthIndex = m, dayOfMonth = d\<rparr>
      else dateOfDay (dayOfMonthStart (makeFullYear y + m div 12) (m mod 12) + d - 1))"

text \<open>
  Modelled from the spec: \<^verbatim>\<open>datetime.isAtSameMonth\<close> and \<^verbatim>\<open>datetime.isSameDay\<close> of
  \<^verbatim>\<open>libs/datetime\<close>, which is not among the sources. The reducer calls them on two
  \<^verbatim>\<open>Date\<close> objects; by section 4.2 they tell whether the two fall in the same year and
  month, and on the same year, month and day, of the local calendar.
\<close>

definition isAtSameMonth :: "CalendarDate \<Rightarrow> CalendarDate \<Rightarrow> bool" where
  "isAtSameMonth a b \<longleftrightarrow> fullYear a = fullYear b \<and> monthIndex a = monthIndex b"

definition isSameDay :: "CalendarDate \<Rightarrow> CalendarDate \<Rightarrow> bool" where
  "isSameDay a b \<longleftrightarrow>
     fullYear a = fullYear b \<and> monthIndex a = monthIndex b \<and> dayOfMonth a = dayOfMonth b"

subsection \<open>Sorting\<close>

text \<open>
  Modelled from the spec: the class \<^verbatim>\<open>Sorting\<close> of \<^verbatim>\<open>core/sorting\<close>, which is not among
  the sources. Section 4.1: items are ordered by the key that the index property getter
  extracts (a number for \<^verbatim>\<open>createdDatetime\<close>, a string compared character by character
  for \<^verbatim>\<open>title\<close>), by one comparator whose sign is flipped for \<^verbatim>\<open>DESC\<close>, and items with
  equal keys keep their relative order.
\<close>

datatype IndexProp = NumberProp int | StringProp string

fun compareStrings :: "string \<Rightarrow> string \<Rightarrow> int" where
  "compareStrings [] [] = 0"
| "compareStrings [] (b # bs) = - 1"
| "compareStrings (a # as) [] = 1"
| "compareStrings (a # as) (b # bs) =
     (if (of_char a :: nat) < of_char b then - 1
      else if (of_char b :: nat) < of_char a then 1
      else compareStrings as bs)"

fun compareProps :: "IndexProp \<Rightarrow> IndexProp \<Rightarrow> int" where
  "compareProps (NumberProp a) (NumberProp b) = (if a < b then - 1 else if b < a then 1 else 0)"
| "compareProps (StringProp a) (StringProp b) = compareStrings a b"
| "compareProps (NumberProp a) (StringProp b) = 0"
| "compareProps (StringProp a) (NumberProp b) = 0"

definition compareItems :: "('a \<Rightarrow> IndexProp) \<Rightarrow> SortDirection \<Rightarrow> 'a \<Rightarrow> 'a \<Rightarrow> int" where
  "compareItems getter direction a b =
     (case direction of
        ASC \<Rightarrow> compareProps (getter a) (getter b)
      | DESC \<Rightarrow> - compareProps (getter a) (getter b))"

fun insertItem :: "('a \<Rightarrow> 'a \<Rightarrow> int) \<Rightarrow> 'a \<Rightarrow> 'a list \<Rightarrow> 'a list" where
  "insertItem cmp x [] = [x]"
| "insertItem cmp x (y # ys) = (if cmp x y \<le> 0 then x # y # ys else y # insertItem cmp x ys)"

definition sortItems :: "('a \<Rightarrow> IndexProp) \<Rightarrow> SortDirection \<Rightarrow> 'a list \<Rightarrow> 'a list" where
  "sortItems getter direction items = foldr (insertItem (compareItems getter direction)) items []"

subsection \<open>Actions\<close>

text \<open>
  \<^verbatim>\<open>NoteCollectionAction\<close>: one constructor for each action type that the reducer
  switches on, with the payload fields the reducer reads, and \<open>OTHER_ACTION\<close> for every
  action type that falls to the \<^verbatim>\<open>default\<close> branch.
\<close>

datatype NoteCollectionAction =
    LOAD_COLLECTION
  | LOAD_COLLECTION_COMPLETE "NoteItem list"
  | SELECT_DATE_FILTER int
  | SELECT_MONTH_FILTER int
  | CHANGE_SORT_ORDER NoteCollectionSortBy
  | CHANGE_SORT_DIRECTION SortDirection
  | CHANGE_VIEW_MODE NoteCollectionViewModes
  | SELECT_NOTE NoteItem
  | DESELECT_NOTE
  | ADD_NOTE NoteItem
  | UPDATE_CONTRIBUTION NoteContributionTable
  | CHANGE_NOTE_TITLE NoteItem string string string
  | DELETE_NOTE NoteItem
  | CHANGE_NOTE_STACKS NoteItem "string list"
  | OTHER_ACTION

subsection \<open>The reducer\<close>

text \<open>\<^verbatim>\<open>array[index]\<close>: \<^verbatim>\<open>undefined\<close> (\<open>None\<close>) for an index outside the array.\<close>

definition at :: "'a list \<Rightarrow> int \<Rightarrow> 'a option" where
  "at xs index = (if 0 \<le> index \<and> index < int (length xs) then Some (xs ! nat index) else None)"

text \<open>\<^verbatim>\<open>Array.prototype.findIndex\<close>: the first index whose element passes, or \<open>-1\<close>.\<close>

fun findIndexFrom :: "('a \<Rightarrow> bool) \<Rightarrow> int \<Rightarrow> 'a list \<Rightarrow> int" where
  "findIndexFrom p i [] = - 1"
| "findIndexFrom p i (x # xs) = (if p x then i else findIndexFrom p (i + 1) xs)"

definition findIndex :: "('a \<Rightarrow> bool) \<Rightarrow> 'a list \<Rightarrow> int" where
  "findIndex p xs = findIndexFrom p 0 xs"

text \<open>\<^verbatim>\<open>array.splice(index, 1)\<close> on an index inside the array.\<close>

definition splice1 :: "'a list \<Rightarrow> int \<Rightarrow> 'a list" where
  "splice1 xs index = take (nat index) xs @ drop (nat index + 1) xs"

definition isIndexOfNoteIsSelectedNote :: "NoteCollectionState \<Rightarrow> int \<Rightarrow> bool" where
  "isIndexOfNoteIsSelectedNote state index =
     (case (at (notes state) index, selectedNote state) of
        (Some note, Some selected) \<Rightarrow> id' note = id' selected
      | _ \<Rightarrow> False)"

definition getIndexOfNote :: "NoteCollectionState \<Rightarrow> NoteItem \<Rightarrow> int" where
  "getIndexOfNote state targetNote = findIndex (\<lambda>note. id' note = id' targetNote) (notes state)"

definition indexPropGetter :: "NoteCollectionSortBy \<Rightarrow> NoteItem \<Rightarrow> IndexProp" where
  "indexPropGetter by note =
     (case by of
        CREATED \<Rightarrow> NumberProp (createdDatetime note)
      | TITLE \<Rightarrow> StringProp (title note))"

text \<open>
  \<open>filterSource\<close> is \<^verbatim>\<open>new Date(state.selectedMonth.year, state.selectedMonth.month)\<close>, with
  the date 1 that the constructor takes when none is given, and
  \<^verbatim>\<open>new Date(state.selectedDate.year, state.selectedDate.month, state.selectedDate.date)\<close>;
  \<open>zone (createdDatetime note)\<close> is \<^verbatim>\<open>new Date(note.createdDatetime)\<close>.
\<close>

definition withFilteredAndSortedNotes ::
  "TimeZone \<Rightarrow> NoteCollectionState \<Rightarrow> error + NoteCollectionState" where
  "withFilteredAndSortedNotes zone state =
     (case filterBy state of
        BY_MONTH \<Rightarrow>
          (case selectedMonth state of
             None \<Rightarrow> Inl TypeError
           | Some selected \<Rightarrow>
               Inr (state\<lparr>filteredAndSortedNotes :=
                 sortItems (indexPropGetter (sortBy state)) (sortDirection state)
                   (filter (\<lambda>note. isAtSameMonth (newDate (year selected) (month selected) 1)
                                     (zone (createdDatetime note)))
                      (notes state))\<rparr>))
      | BY_DATE \<Rightarrow>
          (case selectedDate state of
             None \<Rightarrow> Inl TypeError
           | Some selected \<Rightarrow>
               Inr (state\<lparr>filteredAndSortedNotes :=
                 sortItems (indexPropGetter (sortBy state)) (sortDirection state)
                   (filter (\<lambda>note. isSameDay (newDate (year selected) (month selected) (date selected))
                                     (zone (createdDatetime note)))
                      (notes state))\<rparr>))
      | NONE \<Rightarrow>
          Inr (state\<lparr>filteredAndSortedNotes :=
            sortItems (indexPropGetter (sortBy state)) (sortDirection state) (notes state)\<rparr>))"

text \<open>
  In the branch that patches \<^verbatim>\<open>selectedNote\<close> the selected note is not \<^verbatim>\<open>null\<close>
  (\<open>isIndexOfNoteIsSelectedNote\<close> has returned true), so \<open>map_option\<close> always meets \<open>Some\<close>.
\<close>

definition withNoteUpdate ::
  "NoteCollectionState \<Rightarrow> int \<Rightarrow> NoteItemProp list \<Rightarrow> NoteCollectionState" where
  "withNoteUpdate state index patch =
     (case at (notes state) index of
        None \<Rightarrow> state
      | Some target \<Rightarrow>
          (if isIndexOfNoteIsSelectedNote state index
           then state\<lparr>selectedNote := map_option (\<lambda>selected. spread selected patch) (selectedNote state),
                       notes := (notes state)[nat index := spread target patch]\<rparr>
           else state\<lparr>notes := (notes state)[nat index := spread target patch]\<rparr>))"

definition withNoteDelete :: "NoteCollectionState \<Rightarrow> int \<Rightarrow> NoteCollectionState" where
  "withNoteDelete state deleteIndex =
     (case at (notes state) deleteIndex of
        None \<Rightarrow> state
      | Some target \<Rightarrow>
          (if isIndexOfNoteIsSelectedNote state deleteIndex
           then state\<lparr>selectedNote := None, notes := splice1 (notes state) deleteIndex\<rparr>
           else state\<lparr>notes := splice1 (notes state) deleteIndex\<rparr>))"

fun noteCollectionReducer ::
  "TimeZone \<Rightarrow> NoteCollectionState \<Rightarrow> NoteCollectionAction \<Rightarrow> error + NoteCollectionState" where
  "noteCollectionReducer zone state LOAD_COLLECTION = Inr (state\<lparr>loading := True\<rparr>)"
| "noteCollectionReducer zone state (LOAD_COLLECTION_COMPLETE payloadNotes) =
     withFilteredAndSortedNotes zone (state\<lparr>loading := False, loaded := True, notes := payloadNotes\<rparr>)"
| "noteCollectionReducer zone state (SELECT_DATE_FILTER d) =
     withFilteredAndSortedNotes zone
       (state\<lparr>filterBy := BY_DATE,
              selectedDate := Some \<lparr>year = getFullYear zone d, month = getMonth zone d,
                                     date = getDate zone d\<rparr>\<rparr>)"
| "noteCollectionReducer zone state (SELECT_MONTH_FILTER d) =
     withFilteredAndSortedNotes zone
       (state\<lparr>filterBy := BY_MONTH,
              selectedMonth := Some \<lparr>year = getFullYear zone d, month = getMonth zone d\<rparr>,
              selectedDate := None\<rparr>)"
| "noteCollectionReducer zone state (CHANGE_SORT_ORDER by) =
     withFilteredAndSortedNotes zone (state\<lparr>sortBy := by\<rparr>)"
| "noteCollectionReducer zone state (CHANGE_SORT_DIRECTION direction) =
     withFilteredAndSortedNotes zone (state\<lparr>sortDirection := direction\<rparr>)"
| "noteCollectionReducer zone state (CHANGE_VIEW_MODE mode) = Inr (state\<lparr>viewMode := mode\<rparr>)"
| "noteCollectionReducer zone state (SELECT_NOTE note) = Inr (state\<lparr>selectedNote := Some note\<rparr>)"
| "noteCollectionReducer zone state DESELECT_NOTE = Inr (state\<lparr>selectedNote := None\<rparr>)"
| "noteCollectionReducer zone state (ADD_NOTE note) =
     withFilteredAndSortedNotes zone (state\<lparr>notes := notes state @ [note]\<rparr>)"
| "noteCollectionReducer zone state (UPDATE_CONTRIBUTION table) =
     Inr (state\<lparr>contribution := table\<rparr>)"
| "noteCollectionReducer zone state (CHANGE_NOTE_TITLE note newTitle path fileName) =
     withFilteredAndSortedNotes zone
       (withNoteUpdate state (getIndexOfNote state note)
          [PropTitle newTitle, PropContentFilePath path, PropContentFileName fileName])"
| "noteCollectionReducer zone state (DELETE_NOTE note) =
     withFilteredAndSortedNotes zone (withNoteDelete state (getIndexOfNote state note))"
| "noteCollectionReducer zone state (CHANGE_NOTE_STACKS note stacks) =
     withFilteredAndSortedNotes zone
       (withNoteUpdate state (getIndexOfNote state note) [PropStackIds stacks])"
| "noteCollectionReducer zone state OTHER_ACTION = Inr state"

subsection \<open>The derived view, as the specification words it\<close>

text \<open>
  Section 4.2: a note passes \<^verbatim>\<open>BY_MONTH\<close> iff its \<^verbatim>\<open>createdDatetime\<close>, read in local
  calendar time, falls in the year and month of \<^verbatim>\<open>selectedMonth\<close>; it passes \<^verbatim>\<open>BY_DATE\<close>
  iff it falls on the year, month and day of \<^verbatim>\<open>selectedDate\<close>; every note passes
  \<^verbatim>\<open>NONE\<close>. A filter mode without its selector is an error.
\<close>

definition filterPredicate :: "TimeZone \<Rightarrow> NoteCollectionState \<Rightarrow> error + (NoteItem \<Rightarrow> bool)" where
  "filterPredicate zone state =
     (case filterBy state of
        NONE \<Rightarrow> Inr (\<lambda>note. True)
      | BY_MONTH \<Rightarrow>
          (case selectedMonth state of
             Some sel \<Rightarrow>
               Inr (\<lambda>note. fullYear (zone (createdDatetime note)) = year sel
                          \<and> monthIndex (zone (createdDatetime note)) = month sel)
           | None \<Rightarrow> Inl TypeError)
      | BY_DATE \<Rightarrow>
          (case selectedDate state of
             Some sel \<Rightarrow>
               Inr (\<lambda>note. fullYear (zone (createdDatetime note)) = year sel
                          \<and> monthIndex (zone (createdDatetime note)) = month sel
                          \<and> dayOfMonth (zone (createdDatetime note)) = date sel)
           | None \<Rightarrow> Inl TypeError))"

text \<open>
  Section 4.1, with the stable sort of the HOL library: \<^verbatim>\<open>CREATED\<close> orders by the number
  \<^verbatim>\<open>createdDatetime\<close>, \<^verbatim>\<open>TITLE\<close> by \<^verbatim>\<open>title\<close> in the lexicographic order of the character
  codes. \<^verbatim>\<open>ASC\<close> is ascending; \<^verbatim>\<open>DESC\<close> is descending (the reverse of the ascending
  order of the reversed sequence); in both, items with equal keys keep their relative order.
\<close>

definition ordered :: "('a \<Rightarrow> 'k::linorder) \<Rightarrow> SortDirection \<Rightarrow> 'a list \<Rightarrow> 'a list" where
  "ordered key direction items =
     (case direction of
        ASC \<Rightarrow> sort_key key items
      | DESC \<Rightarrow> rev (sort_key key (rev items)))"

definition orderingStrategy ::
  "NoteCollectionSortBy \<Rightarrow> SortDirection \<Rightarrow> NoteItem list \<Rightarrow> NoteItem list" where
  "orderingStrategy by direction items =
     (case by of
        CREATED \<Rightarrow> ordered createdDatetime direction items
      | TITLE \<Rightarrow> ordered title direction items)"

text \<open>Section 4.4: the filter predicate over \<^verbatim>\<open>notes\<close>, then the ordering strategy.\<close>

definition derivedView :: "TimeZone \<Rightarrow> NoteCollectionState \<Rightarrow> error + NoteItem list" where
  "derivedView zone state =
     (case filterPredicate zone state of
        Inl e \<Rightarrow> Inl e
      | Inr passes \<Rightarrow>
          Inr (orderingStrategy (sortBy state) (sortDirection state) (filter passes (notes state))))"

text \<open>
  The selectors as the \<^verbatim>\<open>Date\<close> constructor reads them: each selector replaced by the year,
  month and date of the \<^verbatim>\<open>Date\<close> that the reducer builds from it.
\<close>

definition selectorsAsDates :: "NoteCollectionState \<Rightarrow> NoteCollectionState" where
  "selectorsAsDates state =
     state\<lparr>selectedMonth :=
              map_option
                (\<lambda>sel. \<lparr>year = fullYear (newDate (year sel) (month sel) 1),
                         month = monthIndex (newDate (year sel) (month sel) 1)\<rparr>)
                (selectedMonth state),
            selectedDate :=
              map_option
                (\<lambda>sel. \<lparr>year = fullYear (newDate (year sel) (month sel) (date sel)),
                         month = monthIndex (newDate (year sel) (month sel) (date sel)),
                         date = dayOfMonth (newDate (year sel) (month sel) (date sel))\<rparr>)
                (selectedDate state)\<rparr>"



text \<open>The active filter mode has its selector: \<open>derivedView\<close> does not fail.\<close>

definition hasFilterSource :: "NoteCollectionState \<Rightarrow> bool" where
  "hasFilterSource state =
     (case filterBy state of
        NONE \<Rightarrow> True
      | BY_MONTH \<Rightarrow> selectedMonth state \<noteq> None
      | BY_DATE \<Rightarrow> selectedDate state \<noteq> None)"

subsection \<open>Reachable states\<close>

text \<open>
  Modelled from the spec: \<^verbatim>\<open>createNoteCollectionInitialState\<close> of
  \<^verbatim>\<open>note-collection.state.ts\<close>, which is not among the sources. Section 3: the state
  is created with an empty, unloaded default; section 4.2: the store upholds that the
  active filter mode has its selector. The defaults of the view configuration are left
  open, so every state of this shape counts as initial.
\<close>

definition isInitialState :: "NoteCollectionState \<Rightarrow> bool" where
  "isInitialState state \<longleftrightarrow>
     \<not> loading state \<and> \<not> loaded state \<and> notes state = [] \<and> filteredAndSortedNotes state = []
     \<and> selectedNote state = None \<and> hasFilterSource state"

text \<open>
  The states that the reducer returns, starting from an initial state, on commands that
  pass \<open>allowed\<close> in the state they are applied to. A command on which the reducer throws
  yields no state.
\<close>

inductive reachableUnder ::
  "(NoteCollectionState \<Rightarrow> NoteCollectionAction \<Rightarrow> bool) \<Rightarrow> TimeZone \<Rightarrow> NoteCollectionState \<Rightarrow> bool"
  for allowed :: "NoteCollectionState \<Rightarrow> NoteCollectionAction \<Rightarrow> bool" and zone :: TimeZone where
  initial: "isInitialState state \<Longrightarrow> reachableUnder allowed zone state"
| command: "reachableUnder allowed zone state \<Longrightarrow> allowed state action
     \<Longrightarrow> noteCollectionReducer zone state action = Inr state'
     \<Longrightarrow> reachableUnder allowed zone state'"

definition anyCommand :: "NoteCollectionState \<Rightarrow> NoteCollectionAction \<Rightarrow> bool" where
  "anyCommand state action = True"

abbreviation reachable :: "TimeZone \<Rightarrow> NoteCollectionState \<Rightarrow> bool" where
  "reachable zone state \<equiv> reachableUnder anyCommand zone state"

text \<open>Commands that bring no second entry of an \<^verbatim>\<open>id\<close> into \<^verbatim>\<open>notes\<close>.\<close>

fun bringsFreshIds :: "NoteCollectionState \<Rightarrow> NoteCollectionAction \<Rightarrow> bool" where
  "bringsFreshIds state (LOAD_COLLECTION_COMPLETE payloadNotes) = distinct (map id' payloadNotes)"
| "bringsFreshIds state (ADD_NOTE note) = (id' note \<notin> set (map id' (notes state)))"
| "bringsFreshIds state action = True"

text \<open>
  The selection agrees with a list of notes: nothing is selected, or no entry has the
  \<^verbatim>\<open>id\<close> of the selected note, or the first entry with that \<^verbatim>\<open>id\<close> equals the selected
  note field by field.
\<close>

definition selectionAgrees :: "NoteItem list \<Rightarrow> NoteItem option \<Rightarrow> bool" where
  "selectionAgrees items selection =
     (case selection of
        None \<Rightarrow> True
      | Some selected \<Rightarrow>
          (case find (\<lambda>note. id' note = id' selected) items of
             None \<Rightarrow> True
           | Some entry \<Rightarrow> entry = selected))"

text \<open>Commands whose payload agrees with the selection they leave behind.\<close>

fun keepsSelection :: "NoteCollectionState \<Rightarrow> NoteCollectionAction \<Rightarrow> bool" where
  "keepsSelection state (SELECT_NOTE note) = selectionAgrees (notes state) (Some note)"
| "keepsSelection state (LOAD_COLLECTION_COMPLETE payloadNotes) =
     selectionAgrees payloadNotes (selectedNote state)"
| "keepsSelection state (ADD_NOTE note) = selectionAgrees (notes state @ [note]) (selectedNote state)"
| "keepsSelection state action = True"

subsection \<open>Concrete inputs\<close>

text \<open>A time zone for the examples: UTC, where a day has 86400000 milliseconds.\<close>

definition utcZone :: TimeZone where
  "utcZone t = dateOfDay (t div 86400000)"

text \<open>The notes of the example scenarios: created on 1 and 2 March 2024, and on 1 February 2024.\<close>

definition noteAlpha :: NoteItem where
  "noteAlpha = \<lparr>id' = ''a'', title = ''Alpha'', createdDatetime = 1709251200000,
     contentFilePath = ''/notes/alpha.md'', contentFileName = ''alpha.md'', stackIds = [],
     label = None\<rparr>"

definition noteBeta :: NoteItem where
  "noteBeta = \<lparr>id' = ''b'', title = ''Beta'', createdDatetime = 1709337600000,
     contentFilePath = ''/notes/beta.md'', contentFileName = ''beta.md'', stackIds = [''ts''],
     label = None\<rparr>"

definition noteGamma :: NoteItem where
  "noteGamma = \<lparr>id' = ''c'', title = ''Gamma'', createdDatetime = 1706745600000,
     contentFilePath = ''/notes/gamma.md'', contentFileName = ''gamma.md'', stackIds = [],
     label = Some ''old''\<rparr>"

text \<open>An initial state: empty, unloaded, filtering by the month of March 2024.\<close>

definition emptyState :: NoteCollectionState where
  "emptyState = \<lparr>loading = False, loaded = False, notes = [], filteredAndSortedNotes = [],
     filterBy = BY_MONTH, selectedMonth = Some \<lparr>year = 2024, month = 2\<rparr>, selectedDate = None,
     sortBy = CREATED, sortDirection = DESC, viewMode = VIEW_DETAIL, selectedNote = None,
     contribution = []\<rparr>"

text \<open>The first note after a change of its title, and a fourth note, created with the first.\<close>

definition noteAlphaRenamed :: NoteItem where
  "noteAlphaRenamed = noteAlpha\<lparr>title := ''Alpha2'', contentFilePath := ''/notes/alpha2.md'',
     contentFileName := ''alpha2.md''\<rparr>"

definition noteDelta :: NoteItem where
  "noteDelta = \<lparr>id' = ''d'', title = ''Delta'', createdDatetime = 1709251200000,
     contentFilePath = ''/notes/delta.md'', contentFileName = ''delta.md'', stackIds = [],
     label = None\<rparr>"

text \<open>
  The states of the example scenarios. Each is the state that the reducer returns on the
  command named in the lemma that introduces it below.
\<close>

definition loadedState :: NoteCollectionState where
  "loadedState = emptyState\<lparr>loaded := True, notes := [noteGamma, noteAlpha, noteBeta],
     filteredAndSortedNotes := [noteBeta, noteAlpha]\<rparr>"

definition selectedState :: NoteCollectionState where
  "selectedState = loadedState\<lparr>selectedNote := Some noteAlpha\<rparr>"

definition retitledState :: NoteCollectionState where
  "retitledState = selectedState\<lparr>notes := [noteGamma, noteAlphaRenamed, noteBeta],
     filteredAndSortedNotes := [noteBeta, noteAlphaRenamed],
     selectedNote := Some noteAlphaRenamed\<rparr>"

definition reloadedState :: NoteCollectionState where
  "reloadedState = selectedState\<lparr>notes := [noteAlphaRenamed],
     filteredAndSortedNotes := [noteAlphaRenamed]\<rparr>"

definition addedState :: NoteCollectionState where
  "addedState = emptyState\<lparr>notes := [noteAlpha], filteredAndSortedNotes := [noteAlpha]\<rparr>"

definition addedTwiceState :: NoteCollectionState where
  "addedTwiceState = emptyState\<lparr>notes := [noteAlpha, noteAlpha],
     filteredAndSortedNotes := [noteAlpha, noteAlpha]\<rparr>"

definition addedTwiceSelectedState :: NoteCollectionState where
  "addedTwiceSelectedState = addedTwiceState\<lparr>selectedNote := Some noteAlpha\<rparr>"

text \<open>A state that no command returns: it filters by date with no selected date.\<close>

definition unsetState :: NoteCollectionState where
  "unsetState = emptyState\<lparr>filterBy := BY_DATE\<rparr>"






section \<open>Properties\<close>

subsection \<open>The reducer on the example scenarios\<close>

lemma emptyState_initial: "isInitialState emptyState"
  by code_simp

lemma load_example:
  "noteCollectionReducer utcZone emptyState (LOAD_COLLECTION_COMPLETE [noteGamma, noteAlpha, noteBeta])
     = Inr loadedState"
  by code_simp

lemma select_example:
  "noteCollectionReducer utcZone loadedState (SELECT_NOTE noteAlpha) = Inr selectedState"
  by code_simp

lemma retitle_example:
  "noteCollectionReducer utcZone selectedState
     (CHANGE_NOTE_TITLE noteAlpha ''Alpha2'' ''/notes/alpha2.md'' ''alpha2.md'') = Inr retitledState"
  by code_simp

lemma reload_example:
  "noteCollectionReducer utcZone selectedState (LOAD_COLLECTION_COMPLETE [noteAlphaRenamed])
     = Inr reloadedState"
  by code_simp

lemma add_example: "noteCollectionReducer utcZone emptyState (ADD_NOTE noteAlpha) = Inr addedState"
  by code_simp

lemma add_twice_example:
  "noteCollectionReducer utcZone addedState (ADD_NOTE noteAlpha) = Inr addedTwiceState"
  by code_simp

lemma select_twice_example:
  "noteCollectionReducer utcZone addedTwiceState (SELECT_NOTE noteAlpha) = Inr addedTwiceSelectedState"
  by code_simp





text \<open>
  The \<^verbatim>\<open>Date\<close> constructor on dates that roll over, and the calendar on a date that does
  not: the two branches of \<open>newDate\<close> agree there.
\<close>

lemma newDate_examples:
  "newDate 50 2 1 = \<lparr>fullYear = 1950, monthIndex = 2, dayOfMonth = 1\<rparr>"
  "newDate 2024 12 1 = \<lparr>fullYear = 2025, monthIndex = 0, dayOfMonth = 1\<rparr>"
  "newDate 2023 1 29 = \<lparr>fullYear = 2023, monthIndex = 2, dayOfMonth = 1\<rparr>"
  "newDate 2024 0 0 = \<lparr>fullYear = 2023, monthIndex = 11, dayOfMonth = 31\<rparr>"
  "dateOfDay (dayOfMonthStart 2024 1 + 29 - 1) = newDate 2024 1 29"
  by code_simp+

subsection \<open>The sort of the model and the stable sort of the library\<close>

lemma insertItem_ascending:
  assumes "\<And>a b. cmp a b \<le> 0 \<longleftrightarrow> key a \<le> (key b :: 'k::linorder)"
  shows "insertItem cmp x ys = insort_key key x ys"
  by (induction ys) (simp_all add: assms)

lemma sort_ascending:
  assumes "\<And>a b. cmp a b \<le> 0 \<longleftrightarrow> key a \<le> (key b :: 'k::linorder)"
  shows "foldr (insertItem cmp) xs [] = sort_key key xs"
  by (induction xs) (simp_all add: insertItem_ascending [OF assms])

lemma mset_insertItem: "mset (insertItem cmp x ys) = add_mset x (mset ys)"
  by (induction ys) simp_all

lemma set_insertItem: "set (insertItem cmp x ys) = insert x (set ys)"
  by (induction ys) auto

lemma insertItem_descending:
  assumes "\<And>a b. cmp a b \<le> 0 \<longleftrightarrow> key b \<le> (key a :: 'k::linorder)"
    and "sorted_wrt (\<lambda>a b. key b \<le> key a) ys"
  shows "sorted_wrt (\<lambda>a b. key b \<le> key a) (insertItem cmp x ys)"
  using assms(2)
proof (induction ys)
  case Nil
  then show ?case by simp
next
  case (Cons y ys)
  show ?case
  proof (cases "cmp x y \<le> 0")
    case True
    with assms(1) [of x y] have "key y \<le> key x" by simp
    moreover from Cons.prems have "\<forall>z \<in> set ys. key z \<le> key y" by simp
    ultimately have "\<forall>z \<in> set ys. key z \<le> key x"
      by (meson order_trans)
    with True \<open>key y \<le> key x\<close> Cons.prems show ?thesis
      by simp
  next
    case False
    with assms(1) [of x y] have "key x \<le> key y" by simp
    with False Cons show ?thesis
      by (auto simp: set_insertItem)
  qed
qed

lemma filter_insertItem_descending:
  assumes "\<And>a b. cmp a b \<le> 0 \<longleftrightarrow> key b \<le> (key a :: 'k::linorder)"
    and "sorted_wrt (\<lambda>a b. key b \<le> key a) ys"
  shows "filter (\<lambda>y. k = key y) (insertItem cmp x ys) =
     (if k = key x then x # filter (\<lambda>y. k = key y) ys else filter (\<lambda>y. k = key y) ys)"
  using assms(2)
proof (induction ys)
  case Nil
  then show ?case by simp
next
  case (Cons y ys)
  then show ?case
    using assms(1) [of x y] by auto
qed

lemma sort_descending:
  assumes "\<And>a b. cmp a b \<le> 0 \<longleftrightarrow> key b \<le> (key a :: 'k::linorder)"
  shows "foldr (insertItem cmp) xs [] = rev (sort_key key (rev xs))"
proof -
  let ?D = "foldr (insertItem cmp) xs []"
  have m: "mset ?D = mset xs"
    by (induction xs) (simp_all add: mset_insertItem)
  have s: "sorted_wrt (\<lambda>a b. key b \<le> key a) ?D"
    by (induction xs) (simp_all add: insertItem_descending [OF assms])
  have f: "filter (\<lambda>y. k = key y) ?D = filter (\<lambda>y. k = key y) xs" for k
  proof (induction xs)
    case Nil
    then show ?case by simp
  next
    case (Cons x xs)
    have "sorted_wrt (\<lambda>a b. key b \<le> key a) (foldr (insertItem cmp) xs [])"
      by (induction xs) (simp_all add: insertItem_descending [OF assms])
    with Cons show ?case
      by (auto simp: filter_insertItem_descending [OF assms])
  qed
  have "sort_key key (rev xs) = rev ?D"
  proof (rule properties_for_sort_key)
    show "mset (rev ?D) = mset (rev xs)"
      using m by simp
    show "filter (\<lambda>x. key k = key x) (rev ?D) = filter (\<lambda>x. key k = key x) (rev xs)" for k
      using f [of "key k"] by (simp flip: rev_filter)
    show "sorted (map key (rev ?D))"
      using s by (simp add: sorted_map sorted_wrt_rev)
  qed
  then show ?thesis by simp
qed

lemma compareStrings_order:
  "compareStrings a b = (if a < b then - 1 else if b < a then 1 else 0)"
  by (induction a b rule: compareStrings.induct) (auto simp: less_char_def)

lemma compare_created:
  "compareItems (indexPropGetter CREATED) ASC a b \<le> 0 \<longleftrightarrow> createdDatetime a \<le> createdDatetime b"
  "compareItems (indexPropGetter CREATED) DESC a b \<le> 0 \<longleftrightarrow> createdDatetime b \<le> createdDatetime a"
  by (simp_all add: compareItems_def indexPropGetter_def)

lemma compare_title:
  "compareItems (indexPropGetter TITLE) ASC a b \<le> 0 \<longleftrightarrow> title a \<le> title b"
  "compareItems (indexPropGetter TITLE) DESC a b \<le> 0 \<longleftrightarrow> title b \<le> title a"
  by (auto simp: compareItems_def indexPropGetter_def compareStrings_order)

lemma sortItems_orderingStrategy:
  "sortItems (indexPropGetter sortKey) direction items = orderingStrategy sortKey direction items"
proof (cases sortKey; cases direction)
  assume "sortKey = CREATED" "direction = ASC"
  then show ?thesis
    by (simp add: sortItems_def orderingStrategy_def ordered_def sort_ascending [OF compare_created(1)])
next
  assume "sortKey = CREATED" "direction = DESC"
  then show ?thesis
    by (simp add: sortItems_def orderingStrategy_def ordered_def sort_descending [OF compare_created(2)])
next
  assume "sortKey = TITLE" "direction = ASC"
  then show ?thesis
    by (simp add: sortItems_def orderingStrategy_def ordered_def sort_ascending [OF compare_title(1)])
next
  assume "sortKey = TITLE" "direction = DESC"
  then show ?thesis
    by (simp add: sortItems_def orderingStrategy_def ordered_def sort_descending [OF compare_title(2)])
qed

subsection \<open>The derived view\<close>


lemma withFilteredAndSortedNotes_view:
  "withFilteredAndSortedNotes zone state =
     (case derivedView zone (selectorsAsDates state) of
        Inl e \<Rightarrow> Inl e
      | Inr view \<Rightarrow> Inr (state\<lparr>filteredAndSortedNotes := view\<rparr>))"
proof -
  have m: "isAtSameMonth a b \<longleftrightarrow> fullYear b = fullYear a \<and> monthIndex b = monthIndex a" for a b
    by (auto simp: isAtSameMonth_def)
  have d: "isSameDay a b \<longleftrightarrow>
      fullYear b = fullYear a \<and> monthIndex b = monthIndex a \<and> dayOfMonth b = dayOfMonth a" for a b
    by (auto simp: isSameDay_def)
  show ?thesis
    by (simp add: withFilteredAndSortedNotes_def derivedView_def filterPredicate_def
        selectorsAsDates_def sortItems_orderingStrategy m d
        split: NoteCollectionFilterBy.split option.split)
qed

lemma derivedView_hasFilterSource:
  "hasFilterSource state \<longleftrightarrow> (\<exists>view. derivedView zone state = Inr view)"
  by (simp add: derivedView_def filterPredicate_def hasFilterSource_def
      split: NoteCollectionFilterBy.split option.split)

lemma derivedView_cong:
  "notes a = notes b \<Longrightarrow> filterBy a = filterBy b \<Longrightarrow> selectedMonth a = selectedMonth b
   \<Longrightarrow> selectedDate a = selectedDate b \<Longrightarrow> sortBy a = sortBy b
   \<Longrightarrow> sortDirection a = sortDirection b \<Longrightarrow> derivedView zone a = derivedView zone b"
  by (simp add: derivedView_def filterPredicate_def
      split: NoteCollectionFilterBy.split option.split)

lemma derivedView_asDates_cong:
  "notes a = notes b \<Longrightarrow> filterBy a = filterBy b \<Longrightarrow> selectedMonth a = selectedMonth b
   \<Longrightarrow> selectedDate a = selectedDate b \<Longrightarrow> sortBy a = sortBy b
   \<Longrightarrow> sortDirection a = sortDirection b
   \<Longrightarrow> derivedView zone (selectorsAsDates a) = derivedView zone (selectorsAsDates b)"
  by (rule derivedView_cong) (simp_all add: selectorsAsDates_def)


lemma withFilteredAndSortedNotes_fresh:
  assumes "withFilteredAndSortedNotes zone state = Inr state'"
  shows "derivedView zone (selectorsAsDates state') = Inr (filteredAndSortedNotes state')"
proof -
  from assms obtain view where v: "derivedView zone (selectorsAsDates state) = Inr view"
    and s: "state' = state\<lparr>filteredAndSortedNotes := view\<rparr>"
    by (auto simp: withFilteredAndSortedNotes_view split: sum.splits)
  have "derivedView zone (selectorsAsDates state') = derivedView zone (selectorsAsDates state)"
    by (rule derivedView_asDates_cong) (simp_all add: s)
  with v s show ?thesis by simp
qed

lemma reducer_keeps_fresh:
  assumes "derivedView zone (selectorsAsDates state) = Inr (filteredAndSortedNotes state)"
    and "noteCollectionReducer zone state action = Inr state'"
  shows "derivedView zone (selectorsAsDates state') = Inr (filteredAndSortedNotes state')"
proof (cases action)
  case LOAD_COLLECTION
  with assms(2) have s: "state' = state\<lparr>loading := True\<rparr>" by simp
  have "derivedView zone (selectorsAsDates state') = derivedView zone (selectorsAsDates state)"
    by (rule derivedView_asDates_cong) (simp_all add: s)
  with assms(1) s show ?thesis by simp
next
  case (CHANGE_VIEW_MODE mode)
  with assms(2) have s: "state' = state\<lparr>viewMode := mode\<rparr>" by simp
  have "derivedView zone (selectorsAsDates state') = derivedView zone (selectorsAsDates state)"
    by (rule derivedView_asDates_cong) (simp_all add: s)
  with assms(1) s show ?thesis by simp
next
  case (SELECT_NOTE picked)
  with assms(2) have s: "state' = state\<lparr>selectedNote := Some picked\<rparr>" by simp
  have "derivedView zone (selectorsAsDates state') = derivedView zone (selectorsAsDates state)"
    by (rule derivedView_asDates_cong) (simp_all add: s)
  with assms(1) s show ?thesis by simp
next
  case DESELECT_NOTE
  with assms(2) have s: "state' = state\<lparr>selectedNote := None\<rparr>" by simp
  have "derivedView zone (selectorsAsDates state') = derivedView zone (selectorsAsDates state)"
    by (rule derivedView_asDates_cong) (simp_all add: s)
  with assms(1) s show ?thesis by simp
next
  case (UPDATE_CONTRIBUTION table)
  with assms(2) have s: "state' = state\<lparr>contribution := table\<rparr>" by simp
  have "derivedView zone (selectorsAsDates state') = derivedView zone (selectorsAsDates state)"
    by (rule derivedView_asDates_cong) (simp_all add: s)
  with assms(1) s show ?thesis by simp
next
  case OTHER_ACTION
  with assms show ?thesis by simp
qed (use assms(2) in \<open>auto dest: withFilteredAndSortedNotes_fresh\<close>)

lemma initial_fresh:
  assumes "isInitialState state"
  shows "derivedView zone (selectorsAsDates state) = Inr (filteredAndSortedNotes state)"
proof -
  from assms have "hasFilterSource (selectorsAsDates state)"
    by (auto simp: isInitialState_def hasFilterSource_def selectorsAsDates_def
        split: NoteCollectionFilterBy.splits)
  then obtain view where v: "derivedView zone (selectorsAsDates state) = Inr view"
    by (auto simp: derivedView_hasFilterSource [of _ zone])
  moreover from assms have "notes (selectorsAsDates state) = []"
    by (simp add: isInitialState_def selectorsAsDates_def)
  ultimately have "view = []"
    by (auto simp: derivedView_def orderingStrategy_def ordered_def
        split: sum.splits NoteCollectionSortBy.splits SortDirection.splits)
  with v assms show ?thesis
    by (simp add: isInitialState_def)
qed

lemma reachableUnder_view:
  "reachableUnder allowed zone state
   \<Longrightarrow> derivedView zone (selectorsAsDates state) = Inr (filteredAndSortedNotes state)"
proof (induction rule: reachableUnder.induct)
  case (initial state)
  then show ?case by (rule initial_fresh)
next
  case (command state action state')
  from command.IH command.hyps(3) show ?case by (rule reducer_keeps_fresh)
qed




subsection \<open>Locating, patching and deleting a note\<close>

lemma findIndexFrom_absent:
  "(\<forall>x \<in> set xs. \<not> p x) \<Longrightarrow> findIndexFrom p i xs = - 1"
  by (induction xs arbitrary: i) auto

lemma findIndexFrom_first:
  "(\<forall>x \<in> set pre. \<not> p x) \<Longrightarrow> p t \<Longrightarrow> findIndexFrom p i (pre @ t # rest) = i + int (length pre)"
  by (induction pre arbitrary: i) auto

lemma first_with_id:
  assumes "v \<in> set (map f xs)"
  shows "\<exists>pre t rest. xs = pre @ t # rest \<and> f t = v \<and> (\<forall>x \<in> set pre. f x \<noteq> v)"
proof -
  from assms have "\<exists>x \<in> set xs. f x = v" by auto
  then obtain pre t rest where "xs = pre @ t # rest" "f t = v" "\<forall>x \<in> set pre. \<not> f x = v"
    by (auto simp: split_list_first_prop_iff)
  then show ?thesis by blast
qed

lemma getIndexOfNote_absent:
  "id' target \<notin> set (map id' (notes state)) \<Longrightarrow> getIndexOfNote state target = - 1"
  unfolding getIndexOfNote_def findIndex_def
  by (rule findIndexFrom_absent) (metis image_eqI list.set_map)

lemma getIndexOfNote_first:
  "notes state = pre @ t # rest \<Longrightarrow> id' t = id' target \<Longrightarrow> (\<forall>x \<in> set pre. id' x \<noteq> id' target)
   \<Longrightarrow> getIndexOfNote state target = int (length pre)"
  by (simp add: getIndexOfNote_def findIndex_def findIndexFrom_first)

lemma at_absent: "at xs (- 1) = None"
  by (simp add: at_def)

lemma at_middle: "at (pre @ t # rest) (int (length pre)) = Some t"
  by (simp add: at_def)

lemma withNoteUpdate_absent: "withNoteUpdate state (- 1) patch = state"
  by (simp add: withNoteUpdate_def at_absent)

lemma withNoteDelete_absent: "withNoteDelete state (- 1) = state"
  by (simp add: withNoteDelete_def at_absent)

lemma withNoteUpdate_first:
  assumes "notes state = pre @ t # rest"
  shows "withNoteUpdate state (int (length pre)) patch =
     state\<lparr>selectedNote :=
              (case selectedNote state of
                 None \<Rightarrow> None
               | Some selected \<Rightarrow>
                   if id' t = id' selected then Some (spread selected patch) else Some selected),
            notes := pre @ spread t patch # rest\<rparr>"
  using assms
  by (cases "selectedNote state")
     (simp_all add: withNoteUpdate_def isIndexOfNoteIsSelectedNote_def at_middle)

lemma withNoteDelete_first:
  assumes "notes state = pre @ t # rest"
  shows "withNoteDelete state (int (length pre)) =
     state\<lparr>selectedNote :=
              (case selectedNote state of
                 None \<Rightarrow> None
               | Some selected \<Rightarrow> if id' t = id' selected then None else Some selected),
            notes := pre @ rest\<rparr>"
  using assms
  by (cases "selectedNote state")
     (simp_all add: withNoteDelete_def isIndexOfNoteIsSelectedNote_def at_middle splice1_def)

lemma withFilteredAndSortedNotes_keeps:
  assumes "withFilteredAndSortedNotes zone state = Inr state'"
  shows "notes state' = notes state" "selectedNote state' = selectedNote state"
    "loading state' = loading state" "loaded state' = loaded state"
    "filterBy state' = filterBy state" "selectedMonth state' = selectedMonth state"
    "selectedDate state' = selectedDate state" "sortBy state' = sortBy state"
    "sortDirection state' = sortDirection state" "viewMode state' = viewMode state"
    "contribution state' = contribution state"
  using assms by (auto simp: withFilteredAndSortedNotes_view split: sum.splits)

lemma withFilteredAndSortedNotes_returns:
  "hasFilterSource state \<Longrightarrow> \<exists>state'. withFilteredAndSortedNotes zone state = Inr state'"
  by (auto simp: withFilteredAndSortedNotes_def hasFilterSource_def
      split: NoteCollectionFilterBy.splits option.splits)

lemma withFilteredAndSortedNotes_throws:
  "\<not> hasFilterSource state \<Longrightarrow> withFilteredAndSortedNotes zone state = Inl TypeError"
  by (auto simp: withFilteredAndSortedNotes_def hasFilterSource_def
      split: NoteCollectionFilterBy.splits option.splits)

lemma hasFilterSource_cong:
  "filterBy a = filterBy b \<Longrightarrow> selectedMonth a = selectedMonth b
   \<Longrightarrow> selectedDate a = selectedDate b \<Longrightarrow> hasFilterSource a = hasFilterSource b"
  by (simp add: hasFilterSource_def split: NoteCollectionFilterBy.split)

lemma hasFilterSource_withNoteUpdate:
  "hasFilterSource (withNoteUpdate state index patch) = hasFilterSource state"
  by (rule hasFilterSource_cong)
     (simp_all add: withNoteUpdate_def split: option.split)

lemma hasFilterSource_withNoteDelete:
  "hasFilterSource (withNoteDelete state index) = hasFilterSource state"
  by (rule hasFilterSource_cong)
     (simp_all add: withNoteDelete_def split: option.split)

lemma spread_title [simp]:
  "spread n [PropTitle t, PropContentFilePath p, PropContentFileName f]
     = n\<lparr>title := t, contentFilePath := p, contentFileName := f\<rparr>"
  by (simp add: spread_def)

lemma spread_stacks [simp]: "spread n [PropStackIds st] = n\<lparr>stackIds := st\<rparr>"
  by (simp add: spread_def)

lemma hasFilterSource_update:
  "hasFilterSource (state\<lparr>loading := a\<rparr>) = hasFilterSource state"
  "hasFilterSource (state\<lparr>loaded := a\<rparr>) = hasFilterSource state"
  "hasFilterSource (state\<lparr>notes := b\<rparr>) = hasFilterSource state"
  "hasFilterSource (state\<lparr>filteredAndSortedNotes := b\<rparr>) = hasFilterSource state"
  "hasFilterSource (state\<lparr>sortBy := c\<rparr>) = hasFilterSource state"
  "hasFilterSource (state\<lparr>sortDirection := d\<rparr>) = hasFilterSource state"
  "hasFilterSource (state\<lparr>selectedNote := e\<rparr>) = hasFilterSource state"
  by (rule hasFilterSource_cong; simp)+

subsection \<open>Filter commands\<close>

text \<open>
  C7. In every state, \<^verbatim>\<open>SELECT_MONTH_FILTER\<close> returns a state with \<^verbatim>\<open>filterBy = BY_MONTH\<close>,
  \<^verbatim>\<open>selectedMonth\<close> read from the payload date and \<^verbatim>\<open>selectedDate = null\<close>;
  \<^verbatim>\<open>SELECT_DATE_FILTER\<close> returns a state with \<^verbatim>\<open>filterBy = BY_DATE\<close>, whatever
  \<^verbatim>\<open>selectedMonth\<close> was, \<^verbatim>\<open>selectedDate\<close> read from the payload date, and
  \<^verbatim>\<open>selectedMonth\<close> as it was. Neither command throws.
\<close>

theorem filter_commands:
  "(\<exists>state'. noteCollectionReducer zone state (SELECT_MONTH_FILTER d) = Inr state'
       \<and> filterBy state' = BY_MONTH
       \<and> selectedMonth state' = Some \<lparr>year = getFullYear zone d, month = getMonth zone d\<rparr>
       \<and> selectedDate state' = None)
   \<and> (\<exists>state'. noteCollectionReducer zone state (SELECT_DATE_FILTER d) = Inr state'
       \<and> filterBy state' = BY_DATE
       \<and> selectedDate state'
           = Some \<lparr>year = getFullYear zone d, month = getMonth zone d, date = getDate zone d\<rparr>
       \<and> selectedMonth state' = selectedMonth state)"
  by (simp add: withFilteredAndSortedNotes_def)

theorem filter_commands_witness:
  "noteCollectionReducer utcZone unsetState (SELECT_MONTH_FILTER 1706745600000)
     = Inr (unsetState\<lparr>filterBy := BY_MONTH, selectedMonth := Some \<lparr>year = 2024, month = 1\<rparr>\<rparr>)
   \<and> noteCollectionReducer utcZone emptyState (SELECT_DATE_FILTER 1709337600000)
     = Inr (emptyState\<lparr>filterBy := BY_DATE,
         selectedDate := Some \<lparr>year = 2024, month = 2, date = 2\<rparr>\<rparr>)"
proof -
  have m: "noteCollectionReducer utcZone unsetState (SELECT_MONTH_FILTER 1706745600000)
     = Inr (unsetState\<lparr>filterBy := BY_MONTH, selectedMonth := Some \<lparr>year = 2024, month = 1\<rparr>\<rparr>)"
    by code_simp
  have d: "noteCollectionReducer utcZone emptyState (SELECT_DATE_FILTER 1709337600000)
     = Inr (emptyState\<lparr>filterBy := BY_DATE,
         selectedDate := Some \<lparr>year = 2024, month = 2, date = 2\<rparr>\<rparr>)"
    by code_simp
  from filter_commands [of utcZone unsetState 1706745600000] m d show ?thesis
    by simp
qed

text \<open>
  C8. In every state whose \<^verbatim>\<open>filterBy\<close> is \<^verbatim>\<open>BY_MONTH\<close> with no \<^verbatim>\<open>selectedMonth\<close>, or
  \<^verbatim>\<open>BY_DATE\<close> with no \<^verbatim>\<open>selectedDate\<close>, recomputing the derived view fails with an
  error before any note is looked at, and the error reaches the caller of every command
  that recomputes the view under the filter configuration of that state.
\<close>

theorem unset_selector_fails:
  assumes "(filterBy state = BY_MONTH \<and> selectedMonth state = None)
     \<or> (filterBy state = BY_DATE \<and> selectedDate state = None)"
  shows "withFilteredAndSortedNotes zone state = Inl TypeError
     \<and> derivedView zone state = Inl TypeError
     \<and> noteCollectionReducer zone state (LOAD_COLLECTION_COMPLETE payloadNotes) = Inl TypeError
     \<and> noteCollectionReducer zone state (CHANGE_SORT_ORDER by) = Inl TypeError
     \<and> noteCollectionReducer zone state (CHANGE_SORT_DIRECTION direction) = Inl TypeError
     \<and> noteCollectionReducer zone state (ADD_NOTE added) = Inl TypeError
     \<and> noteCollectionReducer zone state (CHANGE_NOTE_TITLE target t p f) = Inl TypeError
     \<and> noteCollectionReducer zone state (DELETE_NOTE target) = Inl TypeError
     \<and> noteCollectionReducer zone state (CHANGE_NOTE_STACKS target st) = Inl TypeError"
proof -
  from assms have n: "\<not> hasFilterSource state"
    by (auto simp: hasFilterSource_def)
  have "derivedView zone state = Inl TypeError"
    using n
    by (auto simp: derivedView_def filterPredicate_def hasFilterSource_def
        split: NoteCollectionFilterBy.splits option.splits)
  then show ?thesis
    using n by (simp add: withFilteredAndSortedNotes_throws hasFilterSource_update
        hasFilterSource_withNoteUpdate hasFilterSource_withNoteDelete)
qed

theorem unset_selector_fails_witness:
  "filterBy unsetState = BY_DATE \<and> selectedDate unsetState = None
   \<and> noteCollectionReducer utcZone unsetState (ADD_NOTE noteAlpha) = Inl TypeError
   \<and> derivedView utcZone unsetState = Inl TypeError"
proof -
  have h: "filterBy unsetState = BY_DATE \<and> selectedDate unsetState = None"
    by (simp add: unsetState_def emptyState_def)
  from unset_selector_fails [of unsetState utcZone "[]" CREATED ASC noteAlpha noteAlpha "[]" "[]" "[]" "[]"] h
  show ?thesis by simp
qed

subsection \<open>Loading\<close>



subsection \<open>Commands on a note that is, or is not, in the collection\<close>

lemma reducer_update_returns:
  "hasFilterSource state \<Longrightarrow>
     \<exists>state'. withFilteredAndSortedNotes zone (withNoteUpdate state index patch) = Inr state'"
  by (simp add: withFilteredAndSortedNotes_returns hasFilterSource_withNoteUpdate)

lemma reducer_delete_returns:
  "hasFilterSource state \<Longrightarrow>
     \<exists>state'. withFilteredAndSortedNotes zone (withNoteDelete state index) = Inr state'"
  by (simp add: withFilteredAndSortedNotes_returns hasFilterSource_withNoteDelete)

lemma fresh_returns_same:
  "derivedView zone (selectorsAsDates state) = Inr (filteredAndSortedNotes state)
   \<Longrightarrow> withFilteredAndSortedNotes zone state = Inr state"
  by (simp add: withFilteredAndSortedNotes_view)

text \<open>
  C4. In every state that the engine reaches, a \<^verbatim>\<open>CHANGE_NOTE_TITLE\<close>,
  \<^verbatim>\<open>CHANGE_NOTE_STACKS\<close> or \<^verbatim>\<open>DELETE_NOTE\<close> whose payload note has an \<^verbatim>\<open>id\<close> that no entry
  of \<^verbatim>\<open>notes\<close> has returns a state equal to the input state in every field, and throws
  nothing.
\<close>

theorem absent_note_no_op:
  assumes "reachable zone state"
    and "id' target \<notin> set (map id' (notes state))"
  shows "noteCollectionReducer zone state (CHANGE_NOTE_TITLE target t p f) = Inr state
     \<and> noteCollectionReducer zone state (CHANGE_NOTE_STACKS target st) = Inr state
     \<and> noteCollectionReducer zone state (DELETE_NOTE target) = Inr state"
proof -
  from assms(1) have "withFilteredAndSortedNotes zone state = Inr state"
    by (intro fresh_returns_same reachableUnder_view)
  with assms(2) show ?thesis
    by (simp add: getIndexOfNote_absent withNoteUpdate_absent withNoteDelete_absent)
qed

theorem absent_note_no_op_witness:
  "reachable utcZone selectedState
   \<and> id' noteDelta \<notin> set (map id' (notes selectedState))
   \<and> noteCollectionReducer utcZone selectedState
        (CHANGE_NOTE_TITLE noteDelta ''Delta2'' ''/notes/delta2.md'' ''delta2.md'') = Inr selectedState
   \<and> noteCollectionReducer utcZone selectedState (CHANGE_NOTE_STACKS noteDelta [''ts'']) = Inr selectedState
   \<and> noteCollectionReducer utcZone selectedState (DELETE_NOTE noteDelta) = Inr selectedState"
proof -
  have "reachable utcZone emptyState"
    by (rule reachableUnder.initial) (rule emptyState_initial)
  then have "reachable utcZone loadedState"
    by (rule reachableUnder.command [OF _ _ load_example]) (simp add: anyCommand_def)
  then have r: "reachable utcZone selectedState"
    by (rule reachableUnder.command [OF _ _ select_example]) (simp add: anyCommand_def)
  have i: "id' noteDelta \<notin> set (map id' (notes selectedState))"
    by code_simp
  from absent_note_no_op [OF r i] r i show ?thesis
    by simp
qed

text \<open>
  C6. Let \<^verbatim>\<open>entry\<close> be the first entry of \<^verbatim>\<open>notes\<close> with the \<^verbatim>\<open>id\<close> of the payload note.
  A \<^verbatim>\<open>CHANGE_NOTE_TITLE\<close> that returns (it does whenever the active filter has its selector)
  returns a state in which \<^verbatim>\<open>title\<close>, \<^verbatim>\<open>contentFilePath\<close> and \<^verbatim>\<open>contentFileName\<close> of that entry
  are the payload values, every other field of it and every other entry are as before, and
  \<^verbatim>\<open>selectedNote\<close> has the same three fields replaced if it is not null and has that \<^verbatim>\<open>id\<close>,
  and is as before otherwise. \<^verbatim>\<open>CHANGE_NOTE_STACKS\<close> does the same with \<^verbatim>\<open>stackIds\<close>.
\<close>

theorem change_title_patches:
  assumes "notes state = pre @ entry # rest" and "id' entry = id' target"
    and "\<forall>x \<in> set pre. id' x \<noteq> id' target"
  shows "(hasFilterSource state \<longrightarrow>
        (\<exists>state'. noteCollectionReducer zone state (CHANGE_NOTE_TITLE target t p f) = Inr state')
      \<and> (\<exists>state'. noteCollectionReducer zone state (CHANGE_NOTE_STACKS target st) = Inr state'))
     \<and> (\<forall>state'. noteCollectionReducer zone state (CHANGE_NOTE_TITLE target t p f) = Inr state' \<longrightarrow>
          notes state' = pre @ entry\<lparr>title := t, contentFilePath := p, contentFileName := f\<rparr> # rest
        \<and> selectedNote state' =
            (case selectedNote state of
               None \<Rightarrow> None
             | Some selected \<Rightarrow>
                 if id' selected = id' target
                 then Some (selected\<lparr>title := t, contentFilePath := p, contentFileName := f\<rparr>)
                 else Some selected))
     \<and> (\<forall>state'. noteCollectionReducer zone state (CHANGE_NOTE_STACKS target st) = Inr state' \<longrightarrow>
          notes state' = pre @ entry\<lparr>stackIds := st\<rparr> # rest
        \<and> selectedNote state' =
            (case selectedNote state of
               None \<Rightarrow> None
             | Some selected \<Rightarrow>
                 if id' selected = id' target then Some (selected\<lparr>stackIds := st\<rparr>)
                 else Some selected))"
proof -
  have i: "getIndexOfNote state target = int (length pre)"
    using assms by (rule getIndexOfNote_first)
  show ?thesis
  proof (intro conjI impI allI)
    assume "hasFilterSource state"
    then show "\<exists>state'. noteCollectionReducer zone state (CHANGE_NOTE_TITLE target t p f) = Inr state'"
      "\<exists>state'. noteCollectionReducer zone state (CHANGE_NOTE_STACKS target st) = Inr state'"
      by (simp_all add: reducer_update_returns)
  next
    fix state'
    assume "noteCollectionReducer zone state (CHANGE_NOTE_TITLE target t p f) = Inr state'"
    then have r: "withFilteredAndSortedNotes zone
        (withNoteUpdate state (int (length pre))
           [PropTitle t, PropContentFilePath p, PropContentFileName f]) = Inr state'"
      by (simp add: i)
    show "notes state' = pre @ entry\<lparr>title := t, contentFilePath := p, contentFileName := f\<rparr> # rest"
      using withFilteredAndSortedNotes_keeps(1) [OF r]
      by (simp add: withNoteUpdate_first [OF assms(1)])
    show "selectedNote state' =
            (case selectedNote state of
               None \<Rightarrow> None
             | Some selected \<Rightarrow>
                 if id' selected = id' target
                 then Some (selected\<lparr>title := t, contentFilePath := p, contentFileName := f\<rparr>)
                 else Some selected)"
      using withFilteredAndSortedNotes_keeps(2) [OF r] assms(2)
      by (auto simp: withNoteUpdate_first [OF assms(1)] split: option.splits)
  next
    fix state'
    assume "noteCollectionReducer zone state (CHANGE_NOTE_STACKS target st) = Inr state'"
    then have r: "withFilteredAndSortedNotes zone
        (withNoteUpdate state (int (length pre)) [PropStackIds st]) = Inr state'"
      by (simp add: i)
    show "notes state' = pre @ entry\<lparr>stackIds := st\<rparr> # rest"
      using withFilteredAndSortedNotes_keeps(1) [OF r]
      by (simp add: withNoteUpdate_first [OF assms(1)])
    show "selectedNote state' =
            (case selectedNote state of
               None \<Rightarrow> None
             | Some selected \<Rightarrow>
                 if id' selected = id' target then Some (selected\<lparr>stackIds := st\<rparr>)
                 else Some selected)"
      using withFilteredAndSortedNotes_keeps(2) [OF r] assms(2)
      by (auto simp: withNoteUpdate_first [OF assms(1)] split: option.splits)
  qed
qed

theorem change_title_patches_witness:
  "notes selectedState = [noteGamma] @ noteAlpha # [noteBeta]
   \<and> id' noteGamma \<noteq> id' noteAlpha
   \<and> hasFilterSource selectedState
   \<and> selectedNote selectedState = Some noteAlpha
   \<and> noteCollectionReducer utcZone selectedState
        (CHANGE_NOTE_TITLE noteAlpha ''Alpha2'' ''/notes/alpha2.md'' ''alpha2.md'') = Inr retitledState
   \<and> notes retitledState = [noteGamma] @ noteAlphaRenamed # [noteBeta]
   \<and> selectedNote retitledState = Some noteAlphaRenamed"
proof -
  have n: "notes selectedState = [noteGamma] @ noteAlpha # [noteBeta]"
    by (simp add: selectedState_def loadedState_def)
  have g: "\<forall>x \<in> set [noteGamma]. id' x \<noteq> id' noteAlpha"
    by (simp add: noteGamma_def noteAlpha_def)
  have h: "hasFilterSource selectedState"
    by code_simp
  have s: "selectedNote selectedState = Some noteAlpha"
    by (simp add: selectedState_def)
  from change_title_patches [OF n refl g, where zone = utcZone and t = "''Alpha2''"
      and p = "''/notes/alpha2.md''" and f = "''alpha2.md''" and st = "[]"]
    retitle_example
  have "notes retitledState = [noteGamma] @ noteAlpha\<lparr>title := ''Alpha2'',
          contentFilePath := ''/notes/alpha2.md'', contentFileName := ''alpha2.md''\<rparr> # [noteBeta]
      \<and> selectedNote retitledState = Some (noteAlpha\<lparr>title := ''Alpha2'',
          contentFilePath := ''/notes/alpha2.md'', contentFileName := ''alpha2.md''\<rparr>)"
    by (simp add: s)
  with n g h s retitle_example show ?thesis
    by (simp add: noteAlphaRenamed_def)
qed

text \<open>
  C5, as amended. In every state with a selected note, a \<^verbatim>\<open>DELETE_NOTE\<close> leaves
  \<^verbatim>\<open>selectedNote\<close> as it was when the payload note has another \<^verbatim>\<open>id\<close>; when the payload
  note has the \<^verbatim>\<open>id\<close> of the selected note and \<^verbatim>\<open>entry\<close> is the first entry of \<^verbatim>\<open>notes\<close>
  with that \<^verbatim>\<open>id\<close>, it returns a state with \<^verbatim>\<open>selectedNote = null\<close> and with \<^verbatim>\<open>notes\<close>
  without that one entry, so that no entry has that \<^verbatim>\<open>id\<close> provided that no two entries of
  \<^verbatim>\<open>notes\<close> shared an \<^verbatim>\<open>id\<close> before. The command returns whenever the active filter has its
  selector.
\<close>

theorem delete_selected:
  assumes "selectedNote state = Some selected"
  shows "(hasFilterSource state \<longrightarrow>
        (\<exists>state'. noteCollectionReducer zone state (DELETE_NOTE target) = Inr state'))
     \<and> (\<forall>state'. noteCollectionReducer zone state (DELETE_NOTE target) = Inr state' \<longrightarrow>
          (id' target \<noteq> id' selected \<longrightarrow> selectedNote state' = Some selected)
        \<and> (\<forall>pre entry rest.
              id' target = id' selected \<and> notes state = pre @ entry # rest
              \<and> id' entry = id' target \<and> (\<forall>x \<in> set pre. id' x \<noteq> id' target) \<longrightarrow>
              selectedNote state' = None \<and> notes state' = pre @ rest
              \<and> (distinct (map id' (notes state)) \<longrightarrow> id' target \<notin> set (map id' (notes state')))))"
proof (intro conjI impI allI)
  assume "hasFilterSource state"
  then show "\<exists>state'. noteCollectionReducer zone state (DELETE_NOTE target) = Inr state'"
    by (simp add: reducer_delete_returns)
next
  fix state'
  assume r: "noteCollectionReducer zone state (DELETE_NOTE target) = Inr state'"
    and d: "id' target \<noteq> id' selected"
  show "selectedNote state' = Some selected"
  proof (cases "id' target \<in> set (map id' (notes state))")
    case False
    with r assms show ?thesis
      using withFilteredAndSortedNotes_keeps(2) [of zone state state']
      by (simp add: getIndexOfNote_absent withNoteDelete_absent)
  next
    case True
    then obtain pre entry rest where n: "notes state = pre @ entry # rest"
      and e: "id' entry = id' target" and p: "\<forall>x \<in> set pre. id' x \<noteq> id' target"
      using first_with_id [of "id' target" id' "notes state"] by blast
    from r have "withFilteredAndSortedNotes zone (withNoteDelete state (int (length pre))) = Inr state'"
      by (simp add: getIndexOfNote_first [OF n e p])
    from withFilteredAndSortedNotes_keeps(2) [OF this] assms d e show ?thesis
      by (simp add: withNoteDelete_first [OF n])
  qed
next
  fix state' pre entry rest
  assume r: "noteCollectionReducer zone state (DELETE_NOTE target) = Inr state'"
    and a: "id' target = id' selected \<and> notes state = pre @ entry # rest
      \<and> id' entry = id' target \<and> (\<forall>x \<in> set pre. id' x \<noteq> id' target)"
  from a have n: "notes state = pre @ entry # rest" and e: "id' entry = id' target"
    and p: "\<forall>x \<in> set pre. id' x \<noteq> id' target" and s: "id' target = id' selected"
    by blast+
  from r have w: "withFilteredAndSortedNotes zone (withNoteDelete state (int (length pre))) = Inr state'"
    by (simp add: getIndexOfNote_first [OF n e p])
  show "selectedNote state' = None"
    using withFilteredAndSortedNotes_keeps(2) [OF w] assms e s
    by (simp add: withNoteDelete_first [OF n])
  show k: "notes state' = pre @ rest"
    using withFilteredAndSortedNotes_keeps(1) [OF w]
    by (simp add: withNoteDelete_first [OF n])
  assume "distinct (map id' (notes state))"
  with n e p show "id' target \<notin> set (map id' (notes state'))"
    by (auto simp: k)
qed

theorem delete_selected_witness:
  "selectedNote selectedState = Some noteAlpha
   \<and> hasFilterSource selectedState
   \<and> notes selectedState = [noteGamma] @ noteAlpha # [noteBeta]
   \<and> distinct (map id' (notes selectedState))
   \<and> noteCollectionReducer utcZone selectedState (DELETE_NOTE noteAlpha)
       = Inr (loadedState\<lparr>notes := [noteGamma, noteBeta], filteredAndSortedNotes := [noteBeta]\<rparr>)
   \<and> selectedNote (loadedState\<lparr>notes := [noteGamma, noteBeta], filteredAndSortedNotes := [noteBeta]\<rparr>)
       = None
   \<and> id' noteAlpha \<notin> set (map id' [noteGamma, noteBeta])
   \<and> noteCollectionReducer utcZone selectedState (DELETE_NOTE noteBeta)
       = Inr (selectedState\<lparr>notes := [noteGamma, noteAlpha], filteredAndSortedNotes := [noteAlpha]\<rparr>)
   \<and> selectedNote (selectedState\<lparr>notes := [noteGamma, noteAlpha], filteredAndSortedNotes := [noteAlpha]\<rparr>)
       = Some noteAlpha"
proof -
  have s: "selectedNote selectedState = Some noteAlpha"
    by (simp add: selectedState_def)
  have h: "hasFilterSource selectedState"
    by code_simp
  have n: "notes selectedState = [noteGamma] @ noteAlpha # [noteBeta]"
    by (simp add: selectedState_def loadedState_def)
  have d: "distinct (map id' (notes selectedState))"
    by code_simp
  have g: "\<forall>x \<in> set [noteGamma]. id' x \<noteq> id' noteAlpha"
    by (simp add: noteGamma_def noteAlpha_def)
  have b: "id' noteBeta \<noteq> id' noteAlpha"
    by (simp add: noteBeta_def noteAlpha_def)
  have e1: "noteCollectionReducer utcZone selectedState (DELETE_NOTE noteAlpha)
       = Inr (loadedState\<lparr>notes := [noteGamma, noteBeta], filteredAndSortedNotes := [noteBeta]\<rparr>)"
    by code_simp
  have e2: "noteCollectionReducer utcZone selectedState (DELETE_NOTE noteBeta)
       = Inr (selectedState\<lparr>notes := [noteGamma, noteAlpha], filteredAndSortedNotes := [noteAlpha]\<rparr>)"
    by code_simp
  from delete_selected [OF s, where zone = utcZone and target = noteAlpha] e1 n g d
  have "selectedNote (loadedState\<lparr>notes := [noteGamma, noteBeta], filteredAndSortedNotes := [noteBeta]\<rparr>)
       = None
     \<and> id' noteAlpha \<notin> set (map id' (notes (loadedState\<lparr>notes := [noteGamma, noteBeta],
          filteredAndSortedNotes := [noteBeta]\<rparr>)))"
    by blast
  moreover from delete_selected [OF s, where zone = utcZone and target = noteBeta] e2 b
  have "selectedNote (selectedState\<lparr>notes := [noteGamma, noteAlpha],
      filteredAndSortedNotes := [noteAlpha]\<rparr>) = Some noteAlpha"
    by blast
  ultimately show ?thesis
    using s h n d e1 e2 by simp
qed

text \<open>
  C5 as stated fails in a reachable state: with the same note added twice and selected,
  deleting it removes the first of the two entries only, and the returned \<^verbatim>\<open>notes\<close> still
  has an entry with that \<^verbatim>\<open>id\<close>.
\<close>

theorem delete_selected_counterexample:
  "reachable utcZone addedTwiceSelectedState
   \<and> selectedNote addedTwiceSelectedState = Some noteAlpha
   \<and> notes addedTwiceSelectedState = [noteAlpha, noteAlpha]
   \<and> noteCollectionReducer utcZone addedTwiceSelectedState (DELETE_NOTE noteAlpha) = Inr addedState
   \<and> selectedNote addedState = None
   \<and> notes addedState = [noteAlpha]
   \<and> id' noteAlpha \<in> set (map id' (notes addedState))"
proof -
  have "reachable utcZone emptyState"
    by (rule reachableUnder.initial) (rule emptyState_initial)
  then have "reachable utcZone addedState"
    by (rule reachableUnder.command [OF _ _ add_example]) (simp add: anyCommand_def)
  then have "reachable utcZone addedTwiceState"
    by (rule reachableUnder.command [OF _ _ add_twice_example]) (simp add: anyCommand_def)
  then have r: "reachable utcZone addedTwiceSelectedState"
    by (rule reachableUnder.command [OF _ _ select_twice_example]) (simp add: anyCommand_def)
  have e: "noteCollectionReducer utcZone addedTwiceSelectedState (DELETE_NOTE noteAlpha) = Inr addedState"
    by code_simp
  from r e show ?thesis
    by (simp add: addedTwiceSelectedState_def addedTwiceState_def addedState_def emptyState_def)
qed

subsection \<open>Invariants of the reachable states\<close>

lemma find_append:
  "find P (xs @ ys) = (case find P xs of None \<Rightarrow> find P ys | Some x \<Rightarrow> Some x)"
  by (induction xs) auto

lemma find_absent: "(\<forall>x \<in> set xs. \<not> P x) \<Longrightarrow> find P xs = None"
  by (simp add: find_None_iff)

lemma selectionAgrees_patch:
  assumes "selectionAgrees (pre @ entry # rest) selection"
    and "\<forall>x \<in> set pre. id' x \<noteq> id' entry"
    and "\<forall>x. id' (g x) = id' x"
  shows "selectionAgrees (pre @ g entry # rest)
     (case selection of
        None \<Rightarrow> None
      | Some selected \<Rightarrow> if id' entry = id' selected then Some (g selected) else Some selected)"
proof (cases selection)
  case None
  then show ?thesis by (simp add: selectionAgrees_def)
next
  case (Some selected)
  show ?thesis
  proof (cases "id' entry = id' selected")
    case True
    with assms(2) have "find (\<lambda>x. id' x = id' selected) pre = None"
      by (simp add: find_None_iff)
    with assms(1,3) Some True show ?thesis
      by (simp add: selectionAgrees_def find_append)
  next
    case False
    with assms(1,3) Some show ?thesis
      by (auto simp: selectionAgrees_def find_append split: option.splits)
  qed
qed

lemma selectionAgrees_remove:
  assumes "selectionAgrees (pre @ entry # rest) selection"
  shows "selectionAgrees (pre @ rest)
     (case selection of
        None \<Rightarrow> None
      | Some selected \<Rightarrow> if id' entry = id' selected then None else Some selected)"
  using assms
  by (auto simp: selectionAgrees_def find_append split: option.splits)

lemma update_outcome:
  assumes "withFilteredAndSortedNotes zone (withNoteUpdate state (getIndexOfNote state target) patch)
     = Inr state'"
  obtains (absent) "notes state' = notes state" "selectedNote state' = selectedNote state"
  | (found) pre entry rest where "notes state = pre @ entry # rest"
      "\<forall>x \<in> set pre. id' x \<noteq> id' entry"
      "notes state' = pre @ spread entry patch # rest"
      "selectedNote state' =
         (case selectedNote state of
            None \<Rightarrow> None
          | Some selected \<Rightarrow>
              if id' entry = id' selected then Some (spread selected patch) else Some selected)"
proof (cases "id' target \<in> set (map id' (notes state))")
  case False
  with assms have "withFilteredAndSortedNotes zone state = Inr state'"
    by (simp add: getIndexOfNote_absent withNoteUpdate_absent)
  then show ?thesis
    by (intro absent withFilteredAndSortedNotes_keeps)
next
  case True
  then obtain pre entry rest where n: "notes state = pre @ entry # rest"
    and e: "id' entry = id' target" and p: "\<forall>x \<in> set pre. id' x \<noteq> id' target"
    using first_with_id [of "id' target" id' "notes state"] by blast
  from assms have w: "withFilteredAndSortedNotes zone (withNoteUpdate state (int (length pre)) patch)
      = Inr state'"
    by (simp add: getIndexOfNote_first [OF n e p])
  show ?thesis
  proof (rule found [OF n])
    show "\<forall>x \<in> set pre. id' x \<noteq> id' entry"
      using p e by simp
    show "notes state' = pre @ spread entry patch # rest"
      using withFilteredAndSortedNotes_keeps(1) [OF w] by (simp add: withNoteUpdate_first [OF n])
    show "selectedNote state' =
         (case selectedNote state of
            None \<Rightarrow> None
          | Some selected \<Rightarrow>
              if id' entry = id' selected then Some (spread selected patch) else Some selected)"
      using withFilteredAndSortedNotes_keeps(2) [OF w] by (simp add: withNoteUpdate_first [OF n])
  qed
qed

lemma delete_outcome:
  assumes "withFilteredAndSortedNotes zone (withNoteDelete state (getIndexOfNote state target))
     = Inr state'"
  obtains (absent) "notes state' = notes state" "selectedNote state' = selectedNote state"
  | (found) pre entry rest where "notes state = pre @ entry # rest"
      "notes state' = pre @ rest"
      "selectedNote state' =
         (case selectedNote state of
            None \<Rightarrow> None
          | Some selected \<Rightarrow> if id' entry = id' selected then None else Some selected)"
proof (cases "id' target \<in> set (map id' (notes state))")
  case False
  with assms have "withFilteredAndSortedNotes zone state = Inr state'"
    by (simp add: getIndexOfNote_absent withNoteDelete_absent)
  then show ?thesis
    by (intro absent withFilteredAndSortedNotes_keeps)
next
  case True
  then obtain pre entry rest where n: "notes state = pre @ entry # rest"
    and e: "id' entry = id' target" and p: "\<forall>x \<in> set pre. id' x \<noteq> id' target"
    using first_with_id [of "id' target" id' "notes state"] by blast
  from assms have w: "withFilteredAndSortedNotes zone (withNoteDelete state (int (length pre)))
      = Inr state'"
    by (simp add: getIndexOfNote_first [OF n e p])
  show ?thesis
  proof (rule found [OF n])
    show "notes state' = pre @ rest"
      using withFilteredAndSortedNotes_keeps(1) [OF w] by (simp add: withNoteDelete_first [OF n])
    show "selectedNote state' =
         (case selectedNote state of
            None \<Rightarrow> None
          | Some selected \<Rightarrow> if id' entry = id' selected then None else Some selected)"
      using withFilteredAndSortedNotes_keeps(2) [OF w] by (simp add: withNoteDelete_first [OF n])
  qed
qed

lemma reducer_keeps_distinct:
  assumes "distinct (map id' (notes state))" and "bringsFreshIds state action"
    and "noteCollectionReducer zone state action = Inr state'"
  shows "distinct (map id' (notes state'))"
proof (cases action)
  case (CHANGE_NOTE_TITLE target t p f)
  with assms(3) show ?thesis
    by (auto elim!: update_outcome intro: assms(1) simp: assms(1) [simplified])
      (use assms(1) in auto)
next
  case (CHANGE_NOTE_STACKS target st)
  with assms(3) show ?thesis
    by (auto elim!: update_outcome intro: assms(1) simp: assms(1) [simplified])
      (use assms(1) in auto)
next
  case (DELETE_NOTE target)
  with assms(3) show ?thesis
    by (auto elim!: delete_outcome intro: assms(1)) (use assms(1) in auto)
qed (use assms in \<open>auto dest: withFilteredAndSortedNotes_keeps(1)\<close>)

lemma withFilteredAndSortedNotes_keeps_both:
  "withFilteredAndSortedNotes zone state = Inr state'
   \<Longrightarrow> notes state' = notes state \<and> selectedNote state' = selectedNote state"
  by (simp add: withFilteredAndSortedNotes_keeps)

lemma reducer_keeps_selection:
  assumes "selectionAgrees (notes state) (selectedNote state)" and "keepsSelection state action"
    and "noteCollectionReducer zone state action = Inr state'"
  shows "selectionAgrees (notes state') (selectedNote state')"
proof (cases action)
  case (CHANGE_NOTE_TITLE target t p f)
  with assms(3) show ?thesis
  proof (simp, elim update_outcome)
    fix pre entry rest
    assume n: "notes state = pre @ entry # rest" and p: "\<forall>x \<in> set pre. id' x \<noteq> id' entry"
      and "notes state' = pre @ spread entry [PropTitle t, PropContentFilePath p, PropContentFileName f] # rest"
      and "selectedNote state' =
         (case selectedNote state of
            None \<Rightarrow> None
          | Some selected \<Rightarrow>
              if id' entry = id' selected
              then Some (spread selected [PropTitle t, PropContentFilePath p, PropContentFileName f])
              else Some selected)"
    then show ?thesis
      using selectionAgrees_patch [of pre entry rest "selectedNote state"
          "\<lambda>x. spread x [PropTitle t, PropContentFilePath p, PropContentFileName f]"] assms(1)
      by simp
  qed (use assms(1) in simp)
next
  case (CHANGE_NOTE_STACKS target st)
  with assms(3) show ?thesis
  proof (simp, elim update_outcome)
    fix pre entry rest
    assume n: "notes state = pre @ entry # rest" and p: "\<forall>x \<in> set pre. id' x \<noteq> id' entry"
      and "notes state' = pre @ spread entry [PropStackIds st] # rest"
      and "selectedNote state' =
         (case selectedNote state of
            None \<Rightarrow> None
          | Some selected \<Rightarrow>
              if id' entry = id' selected then Some (spread selected [PropStackIds st])
              else Some selected)"
    then show ?thesis
      using selectionAgrees_patch [of pre entry rest "selectedNote state"
          "\<lambda>x. spread x [PropStackIds st]"] assms(1)
      by simp
  qed (use assms(1) in simp)
next
  case (DELETE_NOTE target)
  with assms(3) show ?thesis
  proof (simp, elim delete_outcome)
    fix pre entry rest
    assume "notes state = pre @ entry # rest" and "notes state' = pre @ rest"
      and "selectedNote state' =
         (case selectedNote state of
            None \<Rightarrow> None
          | Some selected \<Rightarrow> if id' entry = id' selected then None else Some selected)"
    then show ?thesis
      using selectionAgrees_remove [of pre entry rest "selectedNote state"] assms(1)
      by simp
  qed (use assms(1) in simp)
next
  case DESELECT_NOTE
  with assms(3) show ?thesis by (auto simp: selectionAgrees_def)
qed (use assms in \<open>auto dest!: withFilteredAndSortedNotes_keeps_both\<close>)

lemma reachable_examples:
  "reachableUnder allowed utcZone emptyState"
  "allowed emptyState (LOAD_COLLECTION_COMPLETE [noteGamma, noteAlpha, noteBeta])
     \<Longrightarrow> reachableUnder allowed utcZone loadedState"
  "allowed emptyState (LOAD_COLLECTION_COMPLETE [noteGamma, noteAlpha, noteBeta])
     \<Longrightarrow> allowed loadedState (SELECT_NOTE noteAlpha)
     \<Longrightarrow> reachableUnder allowed utcZone selectedState"
proof -
  show e: "reachableUnder allowed utcZone emptyState"
    by (rule reachableUnder.initial) (rule emptyState_initial)
  show l: "reachableUnder allowed utcZone loadedState"
    if "allowed emptyState (LOAD_COLLECTION_COMPLETE [noteGamma, noteAlpha, noteBeta])"
    by (rule reachableUnder.command [OF e that load_example])
  show "reachableUnder allowed utcZone selectedState"
    if "allowed emptyState (LOAD_COLLECTION_COMPLETE [noteGamma, noteAlpha, noteBeta])"
      and "allowed loadedState (SELECT_NOTE noteAlpha)"
    by (rule reachableUnder.command [OF l [OF that(1)] that(2) select_example])
qed

text \<open>
  C2, as amended. In every state reachable by commands of which every
  \<^verbatim>\<open>LOAD_COLLECTION_COMPLETE\<close> has a payload with pairwise distinct \<^verbatim>\<open>id\<close>s and every
  \<^verbatim>\<open>ADD_NOTE\<close> has a note whose \<^verbatim>\<open>id\<close> no entry of \<^verbatim>\<open>notes\<close> has, no two entries of \<^verbatim>\<open>notes\<close>
  have the same \<^verbatim>\<open>id\<close>.
\<close>

theorem fresh_ids_unique:
  "reachableUnder bringsFreshIds zone state \<Longrightarrow> distinct (map id' (notes state))"
proof (induction rule: reachableUnder.induct)
  case (initial state)
  then show ?case by (simp add: isInitialState_def)
next
  case (command state action state')
  then show ?case by (auto intro: reducer_keeps_distinct)
qed

theorem fresh_ids_unique_witness:
  "reachableUnder bringsFreshIds utcZone retitledState
   \<and> notes retitledState = [noteGamma, noteAlphaRenamed, noteBeta]
   \<and> distinct (map id' (notes retitledState))"
proof -
  have f: "bringsFreshIds emptyState (LOAD_COLLECTION_COMPLETE [noteGamma, noteAlpha, noteBeta])"
    by code_simp
  have "reachableUnder bringsFreshIds utcZone selectedState"
    by (rule reachable_examples(3) [where allowed = bringsFreshIds, OF f]) simp
  then have r: "reachableUnder bringsFreshIds utcZone retitledState"
    by (rule reachableUnder.command [OF _ _ retitle_example]) simp
  from fresh_ids_unique [OF r] r show ?thesis
    by (simp add: retitledState_def)
qed

text \<open>
  C2 as stated, for arbitrary payloads, fails: \<^verbatim>\<open>ADD_NOTE\<close> appends its note without
  looking at \<^verbatim>\<open>notes\<close>, so adding the same note twice gives two entries with one \<^verbatim>\<open>id\<close>.
\<close>

theorem unique_ids_counterexample:
  "reachable utcZone addedTwiceState
   \<and> notes addedTwiceState = [noteAlpha, noteAlpha]
   \<and> \<not> distinct (map id' (notes addedTwiceState))"
proof -
  have "reachable utcZone addedState"
    by (rule reachableUnder.command [OF reachable_examples(1) [where allowed = anyCommand] _ add_example])
      (simp add: anyCommand_def)
  then have "reachable utcZone addedTwiceState"
    by (rule reachableUnder.command [OF _ _ add_twice_example]) (simp add: anyCommand_def)
  then show ?thesis
    by (simp add: addedTwiceState_def)
qed

text \<open>
  C3, as amended. In every state reachable by commands of which every \<^verbatim>\<open>SELECT_NOTE\<close>,
  \<^verbatim>\<open>LOAD_COLLECTION_COMPLETE\<close> and \<^verbatim>\<open>ADD_NOTE\<close> has a payload that agrees with the selection
  it leaves behind (\<open>keepsSelection\<close>), a selected note either has an \<^verbatim>\<open>id\<close> that no entry of
  \<^verbatim>\<open>notes\<close> has, or equals, field by field, the first entry of \<^verbatim>\<open>notes\<close> with its \<^verbatim>\<open>id\<close>:
  \<^verbatim>\<open>CHANGE_NOTE_TITLE\<close> and \<^verbatim>\<open>CHANGE_NOTE_STACKS\<close> patch both, and \<^verbatim>\<open>DELETE_NOTE\<close> clears the
  selection with the entry.
\<close>

theorem selection_agrees:
  assumes "reachableUnder keepsSelection zone state" and "selectedNote state = Some selected"
  shows "id' selected \<notin> set (map id' (notes state))
     \<or> find (\<lambda>entry. id' entry = id' selected) (notes state) = Some selected"
proof -
  from assms(1) have "selectionAgrees (notes state) (selectedNote state)"
  proof (induction rule: reachableUnder.induct)
    case (initial state)
    then show ?case by (simp add: isInitialState_def selectionAgrees_def)
  next
    case (command state action state')
    then show ?case by (auto intro: reducer_keeps_selection)
  qed
  with assms(2) show ?thesis
    by (auto simp: selectionAgrees_def find_None_iff split: option.splits)
qed

theorem selection_agrees_witness:
  "reachableUnder keepsSelection utcZone retitledState
   \<and> selectedNote retitledState = Some noteAlphaRenamed
   \<and> find (\<lambda>entry. id' entry = id' noteAlphaRenamed) (notes retitledState) = Some noteAlphaRenamed
   \<and> title noteAlphaRenamed = ''Alpha2''"
proof -
  have k: "keepsSelection emptyState (LOAD_COLLECTION_COMPLETE [noteGamma, noteAlpha, noteBeta])"
    by code_simp
  have k': "keepsSelection loadedState (SELECT_NOTE noteAlpha)"
    by code_simp
  have "reachableUnder keepsSelection utcZone selectedState"
    by (rule reachable_examples(3) [where allowed = keepsSelection, OF k k'])
  then have r: "reachableUnder keepsSelection utcZone retitledState"
    by (rule reachableUnder.command [OF _ _ retitle_example]) simp
  have s: "selectedNote retitledState = Some noteAlphaRenamed"
    by (simp add: retitledState_def)
  have i: "id' noteAlphaRenamed \<in> set (map id' (notes retitledState))"
    by code_simp
  have t: "title noteAlphaRenamed = ''Alpha2''"
    by (simp add: noteAlphaRenamed_def)
  from selection_agrees [OF r s] i r s t show ?thesis
    by simp
qed

text \<open>
  C3 as stated, for every reachable state, fails: \<^verbatim>\<open>LOAD_COLLECTION_COMPLETE\<close> replaces
  \<^verbatim>\<open>notes\<close> and leaves \<^verbatim>\<open>selectedNote\<close> as it was, so after a reload that brings the selected
  note with a new title the selection still has the old one.
\<close>

theorem selection_agrees_counterexample:
  "reachable utcZone reloadedState
   \<and> selectedNote reloadedState = Some noteAlpha
   \<and> notes reloadedState = [noteAlphaRenamed]
   \<and> id' noteAlphaRenamed = id' noteAlpha
   \<and> title noteAlpha = ''Alpha''
   \<and> title noteAlphaRenamed = ''Alpha2''"
proof -
  have "reachable utcZone selectedState"
    by (rule reachable_examples(3) [where allowed = anyCommand]) (simp_all add: anyCommand_def)
  then have "reachable utcZone reloadedState"
    by (rule reachableUnder.command [OF _ _ reload_example]) (simp add: anyCommand_def)
  then show ?thesis
    by (simp add: reloadedState_def selectedState_def noteAlphaRenamed_def noteAlpha_def)
qed

text \<open>
  C10. When \<^verbatim>\<open>notes\<close> has a second entry with the \<^verbatim>\<open>id\<close> of the payload note after the
  first one, a \<^verbatim>\<open>CHANGE_NOTE_TITLE\<close> or \<^verbatim>\<open>CHANGE_NOTE_STACKS\<close> that returns has patched the
  first of them only, and a \<^verbatim>\<open>DELETE_NOTE\<close> that returns has removed the first of them only:
  every entry after the first one, each later duplicate among them, is as before. The
  commands return whenever the active filter has its selector.
\<close>

theorem first_duplicate_only:
  assumes "notes state = pre @ entry # rest" and "id' entry = id' target"
    and "\<forall>x \<in> set pre. id' x \<noteq> id' target" and "id' target \<in> set (map id' rest)"
  shows "(hasFilterSource state \<longrightarrow>
        (\<exists>state'. noteCollectionReducer zone state (CHANGE_NOTE_TITLE target t p f) = Inr state')
      \<and> (\<exists>state'. noteCollectionReducer zone state (CHANGE_NOTE_STACKS target st) = Inr state')
      \<and> (\<exists>state'. noteCollectionReducer zone state (DELETE_NOTE target) = Inr state'))
     \<and> (\<forall>state'. noteCollectionReducer zone state (CHANGE_NOTE_TITLE target t p f) = Inr state' \<longrightarrow>
          notes state' = pre @ entry\<lparr>title := t, contentFilePath := p, contentFileName := f\<rparr> # rest)
     \<and> (\<forall>state'. noteCollectionReducer zone state (CHANGE_NOTE_STACKS target st) = Inr state' \<longrightarrow>
          notes state' = pre @ entry\<lparr>stackIds := st\<rparr> # rest)
     \<and> (\<forall>state'. noteCollectionReducer zone state (DELETE_NOTE target) = Inr state' \<longrightarrow>
          notes state' = pre @ rest \<and> id' target \<in> set (map id' (notes state')))"
proof -
  have i: "getIndexOfNote state target = int (length pre)"
    using assms(1-3) by (rule getIndexOfNote_first)
  show ?thesis
  proof (intro conjI impI allI)
    assume "hasFilterSource state"
    then show "\<exists>state'. noteCollectionReducer zone state (CHANGE_NOTE_TITLE target t p f) = Inr state'"
      "\<exists>state'. noteCollectionReducer zone state (CHANGE_NOTE_STACKS target st) = Inr state'"
      "\<exists>state'. noteCollectionReducer zone state (DELETE_NOTE target) = Inr state'"
      by (simp_all add: reducer_update_returns reducer_delete_returns)
  next
    fix state'
    assume "noteCollectionReducer zone state (CHANGE_NOTE_TITLE target t p f) = Inr state'"
    then have "notes state' = notes (withNoteUpdate state (int (length pre))
        [PropTitle t, PropContentFilePath p, PropContentFileName f])"
      by (simp add: i withFilteredAndSortedNotes_keeps(1))
    then show "notes state' = pre @ entry\<lparr>title := t, contentFilePath := p, contentFileName := f\<rparr> # rest"
      by (simp add: withNoteUpdate_first [OF assms(1)])
  next
    fix state'
    assume "noteCollectionReducer zone state (CHANGE_NOTE_STACKS target st) = Inr state'"
    then have "notes state' = notes (withNoteUpdate state (int (length pre)) [PropStackIds st])"
      by (simp add: i withFilteredAndSortedNotes_keeps(1))
    then show "notes state' = pre @ entry\<lparr>stackIds := st\<rparr> # rest"
      by (simp add: withNoteUpdate_first [OF assms(1)])
  next
    fix state'
    assume "noteCollectionReducer zone state (DELETE_NOTE target) = Inr state'"
    then have "notes state' = notes (withNoteDelete state (int (length pre)))"
      by (simp add: i withFilteredAndSortedNotes_keeps(1))
    then show k: "notes state' = pre @ rest"
      by (simp add: withNoteDelete_first [OF assms(1)])
    from assms(4) show "id' target \<in> set (map id' (notes state'))"
      by (auto simp: k)
  qed
qed

theorem first_duplicate_only_witness:
  "notes addedTwiceSelectedState = [] @ noteAlpha # [noteAlpha]
   \<and> hasFilterSource addedTwiceSelectedState
   \<and> noteCollectionReducer utcZone addedTwiceSelectedState
        (CHANGE_NOTE_TITLE noteAlpha ''Alpha2'' ''/notes/alpha2.md'' ''alpha2.md'')
       = Inr (addedTwiceSelectedState\<lparr>notes := [noteAlphaRenamed, noteAlpha],
           filteredAndSortedNotes := [noteAlphaRenamed, noteAlpha],
           selectedNote := Some noteAlphaRenamed\<rparr>)
   \<and> noteCollectionReducer utcZone addedTwiceSelectedState (DELETE_NOTE noteAlpha) = Inr addedState
   \<and> notes addedState = [noteAlpha]"
proof -
  have n: "notes addedTwiceSelectedState = [] @ noteAlpha # [noteAlpha]"
    by (simp add: addedTwiceSelectedState_def addedTwiceState_def)
  have p: "\<forall>x \<in> set []. id' x \<noteq> id' noteAlpha"
    by simp
  have d: "id' noteAlpha \<in> set (map id' [noteAlpha])"
    by simp
  have h: "hasFilterSource addedTwiceSelectedState"
    by code_simp
  have e1: "noteCollectionReducer utcZone addedTwiceSelectedState
        (CHANGE_NOTE_TITLE noteAlpha ''Alpha2'' ''/notes/alpha2.md'' ''alpha2.md'')
       = Inr (addedTwiceSelectedState\<lparr>notes := [noteAlphaRenamed, noteAlpha],
           filteredAndSortedNotes := [noteAlphaRenamed, noteAlpha],
           selectedNote := Some noteAlphaRenamed\<rparr>)"
    by code_simp
  have e2: "noteCollectionReducer utcZone addedTwiceSelectedState (DELETE_NOTE noteAlpha) = Inr addedState"
    by code_simp
  from first_duplicate_only [OF n refl p d, where zone = utcZone] e2
  have "notes addedState = [] @ [noteAlpha]"
    by blast
  with n h e1 e2 show ?thesis
    by simp
qed

end
